theory Spec2Isabelle
  imports Main "HOL-Library.AList"
begin

section \<open>Data model of the chat server (server/server.js)\<close>

text \<open>
  The server keeps two process-wide JavaScript objects, \<open>users\<close> and \<open>typingUsers\<close>,
  keyed by socket id, and a MongoDB collection of messages. A JavaScript object with
  string keys enumerates its keys in insertion order, assigning to an existing key keeps
  its position, and \<open>delete\<close> removes the key: this is an association list with
  \<open>AList.update\<close> and \<open>AList.delete\<close>.

  The server runs one turn at a time, and a handler that awaits the store gives way to
  other turns. The two handlers whose read and write of shared data lie on different
  sides of an \<open>await\<close> are split there: \<open>add_reaction\<close> (it fetches a document, changes
  the copy and saves it) and \<open>private_message\<close> (it checks the registry, saves, and then
  emits). What such a handler holds while it waits is an entry of \<open>pending\<close>, and a
  \<open>Resume\<close> turn runs the rest of it. The other handlers run as one turn. The outcome of
  a store call is an input of the turn (\<open>find_ok\<close>, \<open>write_ok\<close>), so that a rejected
  promise is a branch.
\<close>

record user =
  uid :: string
  username :: string
  uroom :: string
  online :: bool
  joinedAt :: nat

record reaction =
  userId :: string
  emoji :: string

text \<open>The mongoose schema \<open>messageSchema\<close>, with \<open>_id\<close> and the two timestamps.\<close>

record msg =
  msg_id :: nat
  sender :: string
  senderId :: string
  message :: string
  room :: string
  isPrivate :: bool
  recipientId :: "string option"
  delivered :: bool
  read :: bool
  reactions :: "reaction list"
  edited :: bool
  img :: "string option"
  createdAt :: nat
  updatedAt :: nat

text \<open>The projection sent in a \<open>user_list\<close> payload.\<close>

record roster_entry =
  r_id :: string
  r_username :: string
  r_room :: string
  r_online :: bool

datatype ntype = Join | Leave | Private

datatype payload =
    AvailableRooms "string list"
  | MessageHistory "msg list"
  | UserList "roster_entry list"
  | Notification ntype string string
  | ReceiveMessage msg
  | MessageUpdated msg
  | MessageDeleted nat
  | RoomJoined string
  | TypingUsers "string list"

text \<open>An emission: the sockets that receive it, and the event.\<close>

type_synonym emission = "string list \<times> payload"

text \<open>
  \<open>sockets\<close> is the transport's view (socket.io): the connected sockets, each with the
  rooms it has joined. A socket joins the room named by its own id when it connects.
\<close>

text \<open>
  A suspended handler: \<open>add_reaction\<close> after \<open>await Message.findById\<close>, holding the
  socket id, the fetched document and the emoji; \<open>private_message\<close> at
  \<open>await newMessage.save()\<close>, holding the socket id, \<open>toUserId\<close>, \<open>sender.username\<close>
  and the new document.
\<close>

datatype pending =
    SaveReaction string msg string
  | SavePrivate string string string msg

record state =
  users :: "(string \<times> user) list"
  typingUsers :: "(string \<times> string) list"
  sockets :: "(string \<times> string list) list"
  db :: "msg list"
  next_id :: nat
  pending :: "pending list"

text \<open>What the environment decides for one event: the clock and the store's answers.\<close>

record env =
  now :: nat
  find_ok :: bool
  write_ok :: bool

definition rooms :: "string list" where
  "rooms = [''general'', ''random'', ''tech'', ''gaming'']"

definition init :: state where
  "init = \<lparr>users = [], typingUsers = [], sockets = [], db = [], next_id = 0, pending = []\<rparr>"

section \<open>The transport: rooms and the three ways to emit\<close>

definition in_room :: "state \<Rightarrow> string \<Rightarrow> string list" where
  "in_room s r = map fst (filter (\<lambda>p. r \<in> set (snd p)) (sockets s))"

definition io_to :: "state \<Rightarrow> string \<Rightarrow> string list" where
  "io_to s r = in_room s r"

definition socket_broadcast_to :: "state \<Rightarrow> string \<Rightarrow> string \<Rightarrow> string list" where
  "socket_broadcast_to s sid r = filter (\<lambda>x. x \<noteq> sid) (in_room s r)"

definition io_emit :: "state \<Rightarrow> string list" where
  "io_emit s = map fst (sockets s)"

definition socket_join :: "string \<Rightarrow> string \<Rightarrow> state \<Rightarrow> state" where
  "socket_join sid r s =
     s\<lparr>sockets := map (\<lambda>p. if fst p = sid \<and> r \<notin> set (snd p) then (fst p, snd p @ [r]) else p)
                       (sockets s)\<rparr>"

definition socket_leave :: "string \<Rightarrow> string \<Rightarrow> state \<Rightarrow> state" where
  "socket_leave sid r s =
     s\<lparr>sockets := map (\<lambda>p. if fst p = sid then (fst p, removeAll r (snd p)) else p)
                       (sockets s)\<rparr>"

section \<open>The message store\<close>

text \<open>
  \<open>Message.find({ room }).sort({ createdAt: 1 }).limit(100)\<close>: the messages of the room,
  ascending by creation time, cut after the first 100.
\<close>

definition find_room :: "state \<Rightarrow> string \<Rightarrow> msg list" where
  "find_room s r = take 100 (sort_key createdAt (filter (\<lambda>m. room m = r) (db s)))"

definition findById :: "state \<Rightarrow> nat \<Rightarrow> msg option" where
  "findById s i = find (\<lambda>m. msg_id m = i) (db s)"

text \<open>The schema marks \<open>sender\<close>, \<open>senderId\<close> and \<open>message\<close> as required; mongoose
  rejects an empty string for a required string.\<close>

definition validate :: "msg \<Rightarrow> bool" where
  "validate m = (sender m \<noteq> [] \<and> senderId m \<noteq> [] \<and> message m \<noteq> [])"

text \<open>\<open>new Message({...})\<close> with the schema's defaults.\<close>

definition new_Message ::
  "string \<Rightarrow> string \<Rightarrow> string \<Rightarrow> string \<Rightarrow> bool \<Rightarrow> string option \<Rightarrow> string option \<Rightarrow> msg" where
  "new_Message sndr sid body rm priv rcp im =
     \<lparr>msg_id = 0, sender = sndr, senderId = sid, message = body, room = rm, isPrivate = priv,
      recipientId = rcp, delivered = True, read = False, reactions = [], edited = False,
      img = im, createdAt = 0, updatedAt = 0\<rparr>"

text \<open>\<open>await newMessage.save()\<close> of a new document: \<open>None\<close> is the rejected promise.\<close>

definition save_new :: "env \<Rightarrow> msg \<Rightarrow> state \<Rightarrow> (msg \<times> state) option" where
  "save_new e m s =
     (if write_ok e \<and> validate m
      then (let m' = m\<lparr>msg_id := next_id s, createdAt := now e, updatedAt := now e\<rparr>
            in Some (m', s\<lparr>db := db s @ [m'], next_id := Suc (next_id s)\<rparr>))
      else None)"

text \<open>Writing back a document that the store already holds, found by its id.\<close>

definition replace_doc :: "msg \<Rightarrow> msg list \<Rightarrow> msg list" where
  "replace_doc m ds = map (\<lambda>d. if msg_id d = msg_id m then m else d) ds"

text \<open>\<open>Message.findByIdAndUpdate(id, upd, { new: true })\<close>: the updated document, if any.\<close>

definition findByIdAndUpdate :: "env \<Rightarrow> state \<Rightarrow> nat \<Rightarrow> (msg \<Rightarrow> msg) \<Rightarrow> (msg \<times> state) option" where
  "findByIdAndUpdate e s i upd =
     (case findById s i of
        None \<Rightarrow> None
      | Some m \<Rightarrow> (let m' = (upd m)\<lparr>updatedAt := now e\<rparr>
                   in Some (m', s\<lparr>db := replace_doc m' (db s)\<rparr>)))"

section \<open>The private room identifier\<close>

text \<open>
  \<open>`private-${Math.min(socket.id, toUserId)}-${Math.max(socket.id, toUserId)}`\<close>.
  \<open>Math.min\<close> and \<open>Math.max\<close> convert each argument with ToNumber and answer \<open>NaN\<close> as
  soon as one argument is \<open>NaN\<close>; the template literal prints \<open>NaN\<close> as the text NaN.

  A JavaScript number is \<open>NaN\<close> or a value of a linear order (the doubles with
  \<open>-0 < +0\<close>, as \<open>Math.min\<close> orders them). The value of a numeric literal and the
  text printed for a number are floating-point matters and stay parameters
  (\<open>str_lit\<close>, \<open>num_str\<close>). What is fixed here is the part of ToNumber that decides
  the ids of this program: a string with a character that no numeric literal contains
  (a letter outside those of hexadecimal, binary and octal prefixes, of the exponent
  and of the word Infinity, or an underscore) converts to \<open>NaN\<close>.
\<close>

datatype 'n jsnum = JNaN | JNum 'n

record 'n runtime =
  str_lit :: "string \<Rightarrow> 'n jsnum"
  num_str :: "'n \<Rightarrow> string"

definition never_numeric :: "char list" where
  "never_numeric = ''ghjklmpqrsuvwzGHJKLMNPQRSTUVWYZ_''"

definition ToNumber :: "'n runtime \<Rightarrow> string \<Rightarrow> 'n jsnum" where
  "ToNumber rt s = (if list_ex (\<lambda>c. c \<in> set never_numeric) s then JNaN else str_lit rt s)"

fun Math_min :: "'n::linorder jsnum \<Rightarrow> 'n jsnum \<Rightarrow> 'n jsnum" where
  "Math_min (JNum a) (JNum b) = JNum (min a b)"
| "Math_min _ _ = JNaN"

fun Math_max :: "'n::linorder jsnum \<Rightarrow> 'n jsnum \<Rightarrow> 'n jsnum" where
  "Math_max (JNum a) (JNum b) = JNum (max a b)"
| "Math_max _ _ = JNaN"

fun ToString :: "'n runtime \<Rightarrow> 'n jsnum \<Rightarrow> string" where
  "ToString rt JNaN = ''NaN''"
| "ToString rt (JNum a) = num_str rt a"

definition privateRoomId :: "('n::linorder) runtime \<Rightarrow> string \<Rightarrow> string \<Rightarrow> string" where
  "privateRoomId rt socket_id toUserId =
     ''private-'' @ ToString rt (Math_min (ToNumber rt socket_id) (ToNumber rt toUserId))
       @ ''-'' @ ToString rt (Math_max (ToNumber rt socket_id) (ToNumber rt toUserId))"

section \<open>The handlers\<close>

definition roster_of :: "user \<Rightarrow> roster_entry" where
  "roster_of u = \<lparr>r_id = uid u, r_username = username u, r_room = uroom u, r_online = online u\<rparr>"

text \<open>\<open>x || d\<close> on an optional string: \<open>undefined\<close> and the empty string are falsy.\<close>

definition js_or :: "string option \<Rightarrow> string \<Rightarrow> string" where
  "js_or x d = (case x of None \<Rightarrow> d | Some v \<Rightarrow> if v = [] then d else v)"

text \<open>The placeholder body of a message without text, byte for byte as the string
  literal stands in the source file: nine bytes that no longer spell the camera emoji
  they once were, a space and the word Image.\<close>

definition image_placeholder :: string where
  "image_placeholder =
     [CHR 0xC4, CHR 0x9F, CHR 0xC5, CHR 0xB8, CHR 0xE2, CHR 0x80, CHR 0x9C, CHR 0xC2, CHR 0xB7]
       @ '' Image''"

text \<open>
  \<open>users\<close> is a plain object, so \<open>users[key]\<close> also finds what every object inherits from
  \<open>Object.prototype\<close>, and all of that is truthy. For a socket id the lookup is the
  entry or nothing, since the transport never hands out such a name as an id; for a key
  that a client sends, \<open>!users[key]\<close> is false also for these names.
\<close>

definition object_prototype_names :: "string list" where
  "object_prototype_names =
     [''constructor'', ''toString'', ''toLocaleString'', ''valueOf'', ''hasOwnProperty'',
      ''isPrototypeOf'', ''propertyIsEnumerable'', ''__proto__'', ''__defineGetter__'',
      ''__defineSetter__'', ''__lookupGetter__'', ''__lookupSetter__'']"

definition users_truthy :: "state \<Rightarrow> string \<Rightarrow> bool" where
  "users_truthy s key =
     (case map_of (users s) key of Some u \<Rightarrow> True | None \<Rightarrow> key \<in> set object_prototype_names)"

definition user_join :: "env \<Rightarrow> state \<Rightarrow> string \<Rightarrow> string \<Rightarrow> state \<times> emission list" where
  "user_join e s sid name =
     (let s1 = s\<lparr>users := AList.update sid
                    \<lparr>uid = sid, username = name, uroom = ''general'', online = True,
                     joinedAt = now e\<rparr> (users s)\<rparr>;
          s2 = socket_join sid ''general'' s1;
          out1 = [([sid], AvailableRooms rooms)]
      in if find_ok e
         then (s2, out1 @
                [([sid], MessageHistory (find_room s2 ''general'')),
                 (io_emit s2, UserList (map roster_of (map snd (users s2)))),
                 (socket_broadcast_to s2 sid ''general'',
                    Notification Join (name @ '' joined the chat'') ''general'')])
         else (s2, out1))"

definition send_message ::
  "env \<Rightarrow> state \<Rightarrow> string \<Rightarrow> string option \<Rightarrow> string option \<Rightarrow> string option
     \<Rightarrow> state \<times> emission list" where
  "send_message e s sid body rm im =
     (case map_of (users s) sid of
        None \<Rightarrow> (s, [])
      | Some u \<Rightarrow>
          (let targetRoom = js_or rm (uroom u);
               newMessage = new_Message (username u) sid (js_or body image_placeholder) targetRoom
                              False None (if im = Some [] then None else im)
           in case save_new e newMessage s of
                None \<Rightarrow> (s, [])
              | Some (m, s') \<Rightarrow> (s', [(io_to s' targetRoom, ReceiveMessage m)])))"

definition edit_message :: "env \<Rightarrow> state \<Rightarrow> nat \<Rightarrow> string \<Rightarrow> state \<times> emission list" where
  "edit_message e s i content =
     (if write_ok e
      then (case findByIdAndUpdate e s i (\<lambda>m. m\<lparr>message := content, edited := True\<rparr>) of
              None \<Rightarrow> (s, [])
            | Some (updated, s') \<Rightarrow> (s', [(io_to s' (room updated), MessageUpdated updated)]))
      else (s, []))"

definition delete_message :: "env \<Rightarrow> state \<Rightarrow> nat \<Rightarrow> state \<times> emission list" where
  "delete_message e s i =
     (if find_ok e
      then (case findById s i of
              None \<Rightarrow> (s, [])
            | Some m \<Rightarrow>
                (if write_ok e
                 then (let s' = s\<lparr>db := filter (\<lambda>d. msg_id d \<noteq> i) (db s)\<rparr>
                       in (s', [(io_to s' (room m), MessageDeleted i)]))
                 else (s, [])))
      else (s, []))"

definition join_room :: "env \<Rightarrow> state \<Rightarrow> string \<Rightarrow> string \<Rightarrow> state \<times> emission list" where
  "join_room e s sid newRoom =
     (case map_of (users s) sid of
        None \<Rightarrow> (s, [])
      | Some u \<Rightarrow>
          (if newRoom \<in> set rooms
           then (if uroom u = newRoom then (s, [])
                 else (let oldRoom = uroom u;
                           s1 = socket_leave sid oldRoom s;
                           out1 = [(socket_broadcast_to s1 sid oldRoom,
                                      Notification Leave (username u @ '' left the room'') oldRoom)];
                           s2 = socket_join sid newRoom s1;
                           s3 = s2\<lparr>users := AList.update sid (u\<lparr>uroom := newRoom\<rparr>) (users s2)\<rparr>;
                           out2 = [(socket_broadcast_to s3 sid newRoom,
                                      Notification Join (username u @ '' joined the room'') newRoom)]
                       in if find_ok e
                          then (s3, out1 @ out2 @
                                 [([sid], MessageHistory (find_room s3 newRoom)),
                                  ([sid], RoomJoined newRoom),
                                  (io_emit s3, UserList (map roster_of (map snd (users s3))))])
                          else (s3, out1 @ out2)))
           else (s, [])))"

text \<open>\<open>users[id]?.room === r\<close>: false when the id has no entry.\<close>

definition user_in_room :: "state \<Rightarrow> string \<Rightarrow> string \<Rightarrow> bool" where
  "user_in_room s i r = (case map_of (users s) i of None \<Rightarrow> False | Some u \<Rightarrow> uroom u = r)"

definition typing_start :: "state \<Rightarrow> string \<Rightarrow> state \<times> emission list" where
  "typing_start s sid =
     (case map_of (users s) sid of
        None \<Rightarrow> (s, [])
      | Some u \<Rightarrow>
          (let s1 = s\<lparr>typingUsers := AList.update sid (username u) (typingUsers s)\<rparr>;
               roomTyping = map snd (filter (\<lambda>p. user_in_room s1 (fst p) (uroom u) \<and> fst p \<noteq> sid)
                                       (typingUsers s1))
           in (s1, [(socket_broadcast_to s1 sid (uroom u), TypingUsers roomTyping)])))"

definition typing_stop :: "state \<Rightarrow> string \<Rightarrow> state \<times> emission list" where
  "typing_stop s sid =
     (case map_of (users s) sid of
        None \<Rightarrow> (s, [])
      | Some u \<Rightarrow>
          (let s1 = s\<lparr>typingUsers := AList.delete sid (typingUsers s)\<rparr>;
               roomTyping = map snd (filter (\<lambda>p. user_in_room s1 (fst p) (uroom u))
                                       (typingUsers s1))
           in (s1, [(socket_broadcast_to s1 sid (uroom u), TypingUsers roomTyping)])))"

text \<open>\<open>findIndex\<close>: the position of the first element that satisfies the test, if any.\<close>

fun findIndex :: "('a \<Rightarrow> bool) \<Rightarrow> 'a list \<Rightarrow> nat option" where
  "findIndex P [] = None"
| "findIndex P (x # xs) = (if P x then Some 0 else map_option Suc (findIndex P xs))"

text \<open>
  \<open>add_reaction\<close> up to its first \<open>await\<close>: the document is fetched, and the handler
  waits with it. A missing document and a rejected query end the handler.
\<close>

definition add_reaction_start ::
  "env \<Rightarrow> state \<Rightarrow> string \<Rightarrow> nat \<Rightarrow> string \<Rightarrow> state \<times> emission list" where
  "add_reaction_start e s sid messageId em =
     (if find_ok e
      then (case findById s messageId of
              None \<Rightarrow> (s, [])
            | Some m \<Rightarrow> (s\<lparr>pending := pending s @ [SaveReaction sid m em]\<rparr>, []))
      else (s, []))"

text \<open>
  The rest of \<open>add_reaction\<close>, on the fetched document \<open>m\<close>: the entry of the user is
  looked up in \<open>m\<close>; its emoji is overwritten in \<open>m\<close>, or a new entry is pushed to \<open>m\<close>;
  \<open>m\<close> is saved and then emitted. \<open>message.save()\<close> sends the store what was modified
  in \<open>m\<close>, to be applied to the document \<open>d\<close> that the store holds under the id by then:
  \<^item> a push is sent as \<open>$push\<close> and appended to the array of \<open>d\<close>;
  \<^item> an overwritten emoji is sent as \<open>$set\<close> of \<open>reactions.k.emoji\<close>, under the condition
    that the version of \<open>d\<close> is the one that was fetched; a push is what raises the
    version, and documents start with no reaction and version 0, so the condition is
    that the array of \<open>d\<close> is as long as the one of \<open>m\<close>;
  \<^item> with nothing modified, \<open>save\<close> only checks that \<open>d\<close> exists;
  \<^item> a modifying save sets \<open>updatedAt\<close>.
  A document that is gone, a failed version condition and a rejected call make \<open>save\<close>
  throw, and the handler emits nothing.
\<close>

definition add_reaction_saved ::
  "env \<Rightarrow> state \<Rightarrow> string \<Rightarrow> msg \<Rightarrow> string \<Rightarrow> state \<times> emission list" where
  "add_reaction_saved e s sid m em =
     (if write_ok e
      then (case findById s (msg_id m) of
              None \<Rightarrow> (s, [])
            | Some d \<Rightarrow>
                (case findIndex (\<lambda>r. userId r = sid) (reactions m) of
                   Some k \<Rightarrow>
                     (if emoji (reactions m ! k) = em
                      then (s, [(io_to s (room m), MessageUpdated m)])
                      else if length (reactions d) = length (reactions m)
                      then (let m' = m\<lparr>reactions := (reactions m)[k := (reactions m ! k)\<lparr>emoji := em\<rparr>],
                                        updatedAt := now e\<rparr>;
                                d' = d\<lparr>reactions := (reactions d)[k := (reactions d ! k)\<lparr>emoji := em\<rparr>],
                                        updatedAt := now e\<rparr>;
                                s' = s\<lparr>db := replace_doc d' (db s)\<rparr>
                            in (s', [(io_to s' (room m'), MessageUpdated m')]))
                      else (s, []))
                 | None \<Rightarrow>
                     (let m' = m\<lparr>reactions := reactions m @ [\<lparr>userId = sid, emoji = em\<rparr>],
                                 updatedAt := now e\<rparr>;
                          d' = d\<lparr>reactions := reactions d @ [\<lparr>userId = sid, emoji = em\<rparr>],
                                 updatedAt := now e\<rparr>;
                          s' = s\<lparr>db := replace_doc d' (db s)\<rparr>
                      in (s', [(io_to s' (room m'), MessageUpdated m')]))))
      else (s, []))"

text \<open>The whole handler when no other turn runs between its two awaits.\<close>

definition add_reaction :: "env \<Rightarrow> state \<Rightarrow> string \<Rightarrow> nat \<Rightarrow> string \<Rightarrow> state \<times> emission list" where
  "add_reaction e s sid messageId em =
     (if find_ok e
      then (case findById s messageId of
              None \<Rightarrow> (s, [])
            | Some m \<Rightarrow> add_reaction_saved e s sid m em)
      else (s, []))"

definition message_read :: "env \<Rightarrow> state \<Rightarrow> nat \<Rightarrow> state \<times> emission list" where
  "message_read e s i =
     (if write_ok e
      then (case findByIdAndUpdate e s i (\<lambda>m. m\<lparr>read := True\<rparr>) of
              None \<Rightarrow> (s, [])
            | Some (updated, s') \<Rightarrow> (s', [(io_to s' (room updated), MessageUpdated updated)]))
      else (s, []))"

text \<open>
  \<open>private_message\<close> up to \<open>await newMessage.save()\<close>: the guard on the sender and on
  \<open>users[toUserId]\<close>, the room identifier and the new document.
\<close>

definition private_message ::
  "('n::linorder) runtime \<Rightarrow> state \<Rightarrow> string \<Rightarrow> string \<Rightarrow> string \<Rightarrow> state \<times> emission list" where
  "private_message rt s sid toUserId body =
     (case map_of (users s) sid of
        None \<Rightarrow> (s, [])
      | Some sndr \<Rightarrow>
          (if users_truthy s toUserId
           then (let privRoom = privateRoomId rt sid toUserId;
                     newMessage = new_Message (username sndr) sid body privRoom True
                                    (Some toUserId) None
                 in (s\<lparr>pending := pending s @ [SavePrivate sid toUserId (username sndr) newMessage]\<rparr>,
                     []))
           else (s, [])))"

text \<open>
  The rest of \<open>private_message\<close>: the document is saved, and the three events go to the
  rooms named by the two ids as they are when the save has returned; the registry is not
  read again.
\<close>

definition private_message_saved ::
  "env \<Rightarrow> state \<Rightarrow> string \<Rightarrow> string \<Rightarrow> string \<Rightarrow> msg \<Rightarrow> state \<times> emission list" where
  "private_message_saved e s sid toUserId sname newMessage =
     (case save_new e newMessage s of
        None \<Rightarrow> (s, [])
      | Some (m, s') \<Rightarrow>
          (s', [(io_to s' sid, ReceiveMessage m),
                (io_to s' toUserId, ReceiveMessage m),
                (io_to s' toUserId,
                   Notification Private (''New private message from '' @ sname)
                     (room newMessage))]))"

text \<open>A suspended handler goes on: its entry leaves \<open>pending\<close> and its rest runs.\<close>

definition resume :: "env \<Rightarrow> state \<Rightarrow> nat \<Rightarrow> state \<times> emission list" where
  "resume e s k =
     (if k < length (pending s)
      then (let s1 = s\<lparr>pending := take k (pending s) @ drop (Suc k) (pending s)\<rparr>
            in case pending s ! k of
                 SaveReaction sid m em \<Rightarrow> add_reaction_saved e s1 sid m em
               | SavePrivate sid toUserId sname newMessage \<Rightarrow>
                   private_message_saved e s1 sid toUserId sname newMessage)
      else (s, []))"

text \<open>
  The transport has taken the socket out of every room and out of the namespace when
  the \<open>disconnect\<close> handler runs. The handler marks the entry offline, forgets the
  typing entry, notifies the room, sends the roster of the online entries, and only
  then deletes the entry.
\<close>

definition disconnect :: "state \<Rightarrow> string \<Rightarrow> state \<times> emission list" where
  "disconnect s sid =
     (let s0 = s\<lparr>sockets := AList.delete sid (sockets s)\<rparr>
      in case map_of (users s0) sid of
           None \<Rightarrow> (s0, [])
         | Some u \<Rightarrow>
             (let s1 = s0\<lparr>users := AList.update sid (u\<lparr>online := False\<rparr>) (users s0),
                         typingUsers := AList.delete sid (typingUsers s0)\<rparr>;
                  out = [(socket_broadcast_to s1 sid (uroom u),
                            Notification Leave (username u @ '' disconnected'') (uroom u)),
                         (io_emit s1,
                            UserList (map roster_of (filter online (map snd (users s1)))))]
              in (s1\<lparr>users := AList.delete sid (users s1)\<rparr>, out)))"

text \<open>
  A new connection: the transport gives it an id that no live connection has and that
  is neither the name of a public room nor a name that objects inherit, and puts it into
  the room of its own id.
\<close>

definition connect :: "state \<Rightarrow> string \<Rightarrow> state \<times> emission list" where
  "connect s sid =
     (if sid \<in> set (map fst (sockets s)) then (s, [])
      else if sid \<in> set rooms then (s, [])
      else if sid \<in> set object_prototype_names then (s, [])
      else (s\<lparr>sockets := sockets s @ [(sid, [sid])]\<rparr>, []))"

datatype event =
    Connect string
  | UserJoin string string
  | SendMessage string "string option" "string option" "string option"
  | EditMessage string nat string
  | DeleteMessage string nat
  | JoinRoom string string
  | TypingStart string
  | TypingStop string
  | AddReaction string nat string
  | MessageRead string nat
  | PrivateMessage string string string
  | Disconnect string
  | Resume nat

text \<open>The socket that an event comes from; a \<open>Resume\<close> comes from the store.\<close>

fun origin :: "event \<Rightarrow> string option" where
  "origin (Connect sid) = Some sid"
| "origin (UserJoin sid _) = Some sid"
| "origin (SendMessage sid _ _ _) = Some sid"
| "origin (EditMessage sid _ _) = Some sid"
| "origin (DeleteMessage sid _) = Some sid"
| "origin (JoinRoom sid _) = Some sid"
| "origin (TypingStart sid) = Some sid"
| "origin (TypingStop sid) = Some sid"
| "origin (AddReaction sid _ _) = Some sid"
| "origin (MessageRead sid _) = Some sid"
| "origin (PrivateMessage sid _ _) = Some sid"
| "origin (Disconnect sid) = Some sid"
| "origin (Resume _) = None"

fun handle :: "('n::linorder) runtime \<Rightarrow> env \<Rightarrow> state \<Rightarrow> event \<Rightarrow> state \<times> emission list" where
  "handle rt e s (Connect sid) = connect s sid"
| "handle rt e s (UserJoin sid name) = user_join e s sid name"
| "handle rt e s (SendMessage sid body rm im) = send_message e s sid body rm im"
| "handle rt e s (EditMessage sid i content) = edit_message e s i content"
| "handle rt e s (DeleteMessage sid i) = delete_message e s i"
| "handle rt e s (JoinRoom sid newRoom) = join_room e s sid newRoom"
| "handle rt e s (TypingStart sid) = typing_start s sid"
| "handle rt e s (TypingStop sid) = typing_stop s sid"
| "handle rt e s (AddReaction sid i em) = add_reaction_start e s sid i em"
| "handle rt e s (MessageRead sid i) = message_read e s i"
| "handle rt e s (PrivateMessage sid toUserId body) = private_message rt s sid toUserId body"
| "handle rt e s (Disconnect sid) = disconnect s sid"
| "handle rt e s (Resume k) = resume e s k"

text \<open>
  Only a connected socket sends events, the handlers being registered per connection; a
  connection and a resumption are not events of a connected socket and always run.
\<close>

definition step :: "('n::linorder) runtime \<Rightarrow> env \<Rightarrow> state \<Rightarrow> event \<Rightarrow> state \<times> emission list" where
  "step rt e s ev =
     (case ev of
        Connect sid \<Rightarrow> connect s sid
      | Resume k \<Rightarrow> resume e s k
      | _ \<Rightarrow> (case origin ev of
                None \<Rightarrow> (s, [])
              | Some sid \<Rightarrow> if sid \<in> set (map fst (sockets s)) then handle rt e s ev else (s, [])))"

fun run :: "('n::linorder) runtime \<Rightarrow> (env \<times> event) list \<Rightarrow> state \<Rightarrow> state \<times> emission list" where
  "run rt [] s = (s, [])"
| "run rt (p # tr) s =
     (case step rt (fst p) s (snd p) of
        (s1, out1) \<Rightarrow> (case run rt tr s1 of (s2, out2) \<Rightarrow> (s2, out1 @ out2)))"

section \<open>What holds in the states that the server reaches\<close>

text \<open>
  Of the registry, the typing map and the transport: every registry entry is online,
  carries its key as id and a public room; keys are unique; a typing entry belongs to a
  registered connection; a registered connection is connected; a socket is in the room
  of its own id and otherwise in public rooms only, and no socket id is the name of a
  public room.
\<close>

definition reg_ok :: "state \<Rightarrow> bool" where
  "reg_ok s = (list_all (\<lambda>p. online (snd p) \<and> uid (snd p) = fst p \<and> uroom (snd p) \<in> set rooms) (users s)
               \<and> distinct (map fst (users s)))"

definition typing_ok :: "state \<Rightarrow> bool" where
  "typing_ok s = (distinct (map fst (typingUsers s))
                  \<and> set (map fst (typingUsers s)) \<subseteq> set (map fst (users s)))"

definition socket_rooms_ok :: "string \<times> string list \<Rightarrow> bool" where
  "socket_rooms_ok p = (fst p \<in> set (snd p) \<and> fst p \<notin> set rooms
                        \<and> set (snd p) \<subseteq> insert (fst p) (set rooms))"

definition transport_ok :: "state \<Rightarrow> bool" where
  "transport_ok s = (distinct (map fst (sockets s))
                     \<and> set (map fst (users s)) \<subseteq> set (map fst (sockets s))
                     \<and> list_all socket_rooms_ok (sockets s))"

definition inv :: "state \<Rightarrow> bool" where
  "inv s = (reg_ok s \<and> typing_ok s \<and> transport_ok s)"


text \<open>What a suspended \<open>private_message\<close> holds: ids that name no public room, and the
  document that the handler built for them.\<close>

fun pending_item_ok :: "('n::linorder) runtime \<Rightarrow> pending \<Rightarrow> bool" where
  "pending_item_ok rt (SaveReaction sid m em) = True"
| "pending_item_ok rt (SavePrivate sid t sname nm) =
     (sid \<notin> set rooms \<and> t \<notin> set rooms
      \<and> nm = new_Message sname sid (message nm) (privateRoomId rt sid t) True (Some t) None)"

definition pending_ok :: "('n::linorder) runtime \<Rightarrow> state \<Rightarrow> bool" where
  "pending_ok rt s = list_all (pending_item_ok rt) (pending s)"

text \<open>The connection of the id, if it is connected.\<close>

definition socket_of :: "state \<Rightarrow> string \<Rightarrow> string list" where
  "socket_of s k = (if k \<in> set (map fst (sockets s)) then [k] else [])"

section \<open>The spec's reading of the history replay\<close>


section \<open>Concrete states and inputs\<close>

definition env0 :: env where
  "env0 = \<lparr>now = 7, find_ok = True, write_ok = True\<rparr>"

text \<open>Numeric conversions for evaluating the model on the ids \<open>a\<close> and \<open>b\<close>, which
  are no numeric literals: every string converts to \<open>NaN\<close>.\<close>

definition rt0 :: "nat runtime" where
  "rt0 = \<lparr>str_lit = (\<lambda>s. JNaN), num_str = (\<lambda>n. ''0'')\<rparr>"

text \<open>The connection \<open>a\<close> has joined as alice; then \<open>b\<close> has joined as bob; then both
  have started typing.\<close>

definition s_a :: state where
  "s_a = fst (user_join env0 (fst (connect init ''a'')) ''a'' ''alice'')"

definition s_ab :: state where
  "s_ab = fst (user_join env0 (fst (connect s_a ''b'')) ''b'' ''bob'')"

definition s_typing :: state where
  "s_typing = fst (typing_start (fst (typing_start s_ab ''b'')) ''a'')"

text \<open>A store with one message of alice that carries one reaction, after alice has
  left.\<close>

definition r0 :: reaction where
  "r0 = \<lparr>userId = ''a'', emoji = ''x''\<rparr>"

definition m0 :: msg where
  "m0 = (new_Message ''alice'' ''a'' ''hi'' ''general'' False None None)
          \<lparr>msg_id := 0, createdAt := 7, updatedAt := 7\<rparr>"

definition s_msg :: state where
  "s_msg = \<lparr>users = [], typingUsers = [], sockets = [],
            db = [m0\<lparr>reactions := [r0]\<rparr>], next_id = 1, pending = []\<rparr>"

text \<open>A message of alice without reactions in the store, alice connected.\<close>

definition s_m0 :: state where
  "s_m0 = s_a\<lparr>db := [m0], next_id := 1\<rparr>"



text \<open>The private message that \<open>a\<close> sends to \<open>b\<close> in the state \<open>s_ab\<close>.\<close>

definition pm0 :: msg where
  "pm0 = \<lparr>msg_id = 0, sender = ''alice'', senderId = ''a'', message = ''hi'',
          room = ''private-NaN-NaN'', isPrivate = True, recipientId = Some ''b'', delivered = True,
          read = False, reactions = [], edited = False, img = None, createdAt = 7, updatedAt = 7\<rparr>"

text \<open>In the state \<open>s_ab\<close>, \<open>a\<close> has sent a private message to \<open>b\<close> and its save is
  pending; then \<open>b\<close> has disconnected.\<close>

definition pm_new :: msg where
  "pm_new = new_Message ''alice'' ''a'' ''hi'' ''private-NaN-NaN'' True (Some ''b'') None"

definition s_pm :: state where
  "s_pm = s_ab\<lparr>pending := [SavePrivate ''a'' ''b'' ''alice'' pm_new]\<rparr>"

definition s_pm_gone :: state where
  "s_pm_gone = s_pm\<lparr>users := [(''a'', \<lparr>uid = ''a'', username = ''alice'', uroom = ''general'',
                                         online = True, joinedAt = 7\<rparr>)],
                     sockets := [(''a'', [''a'', ''general''])]\<rparr>"

section \<open>Properties\<close>

subsection \<open>The private room identifier\<close>

lemma Math_min_sym: "Math_min x y = Math_min y x"
  by (cases x; cases y) (simp_all add: min.commute)

lemma Math_max_sym: "Math_max x y = Math_max y x"
  by (cases x; cases y) (simp_all add: max.commute)

lemma privateRoomId_sym: "privateRoomId rt a b = privateRoomId rt b a"
  by (simp add: privateRoomId_def Math_min_sym [of "ToNumber rt a"] Math_max_sym [of "ToNumber rt a"])

lemma privateRoomId_NaN:
  "list_ex (\<lambda>c. c \<in> set never_numeric) a \<Longrightarrow> privateRoomId rt a b = ''private-NaN-NaN''"
  by (simp add: privateRoomId_def ToNumber_def)

text \<open>
  C1. The identifier is symmetric (\<open>privateRoomId_sym\<close>), but it is not built from the
  two ids: socket ids are not numerals, \<open>Math.min\<close> and \<open>Math.max\<close> turn them into
  \<open>NaN\<close>, and two different pairs of connections get the same identifier
  \<open>private-NaN-NaN\<close>, whatever the runtime's numeric conversions are.
\<close>

theorem privateRoomId_not_from_ids:
  "privateRoomId rt ''kCwT3ZqV9yYh7uPmAAAB'' ''Xq0sJ2LrT5vNw8GzAAAD'' = ''private-NaN-NaN''
   \<and> privateRoomId rt ''mR4pLs8WjQ2nHk6vAAAF'' ''uG7tZy1KqS5wJp3rAAAH'' = ''private-NaN-NaN''"
  by (simp add: privateRoomId_def ToNumber_def never_numeric_def)

subsection \<open>Looking a document up and writing it back\<close>

lemma findById_id: "findById s i = Some m \<Longrightarrow> msg_id m = i"
  by (auto simp: findById_def find_Some_iff)

lemma find_replace_doc_same:
  "find (\<lambda>d. msg_id d = i) ds = Some m \<Longrightarrow> msg_id m2 = i \<Longrightarrow>
   find (\<lambda>d. msg_id d = i) (replace_doc m2 ds) = Some m2"
  by (induction ds) (auto simp: replace_doc_def)

lemma find_replace_doc_other:
  "j \<noteq> msg_id m2 \<Longrightarrow>
   find (\<lambda>d. msg_id d = j) (replace_doc m2 ds) = find (\<lambda>d. msg_id d = j) ds"
  by (induction ds) (auto simp: replace_doc_def)

subsection \<open>The frame of a reaction\<close>

lemma add_reaction_saved_other:
  "j \<noteq> msg_id m \<Longrightarrow> findById (fst (add_reaction_saved e s u m em)) j = findById s j"
  by (auto simp: add_reaction_saved_def Let_def findById_def find_replace_doc_other
        dest!: findById_id [unfolded findById_def] split: option.splits)

lemma add_reaction_saved_frame:
  assumes "findById s (msg_id m) = Some d"
  shows "\<exists>d'. findById (fst (add_reaction_saved e s u m em)) (msg_id m) = Some d'
           \<and> msg_id d' = msg_id d \<and> sender d' = sender d \<and> senderId d' = senderId d
           \<and> message d' = message d \<and> room d' = room d \<and> isPrivate d' = isPrivate d
           \<and> recipientId d' = recipientId d \<and> delivered d' = delivered d \<and> read d' = read d
           \<and> edited d' = edited d \<and> img d' = img d \<and> createdAt d' = createdAt d"
proof -
  have i: "msg_id d = msg_id m" using assms by (rule findById_id)
  have r: "\<And>d'. msg_id d' = msg_id m \<Longrightarrow>
             findById (s\<lparr>db := replace_doc d' (db s)\<rparr>) (msg_id m) = Some d'"
    using assms find_replace_doc_same by (simp add: findById_def)
  show ?thesis using assms i
    by (auto simp: add_reaction_saved_def Let_def r split: option.splits)
qed

text \<open>
  C10. Whatever the store answers, the message found under the id after \<open>add_reaction\<close>
  agrees with the fetched one in every field but \<open>reactions\<close> and \<open>updatedAt\<close>
  (\<open>add_reaction_saved_frame\<close> says the same of the save alone and the document that the
  store holds by then):
  sender, senderId, body, room, isPrivate, recipientId, delivered, read, edited and image
  (and the id and \<open>createdAt\<close>) are unchanged.
\<close>

theorem add_reaction_frame:
  assumes "findById s i = Some m"
  shows "\<exists>m'. findById (fst (add_reaction e s u i em)) i = Some m'
           \<and> msg_id m' = msg_id m \<and> sender m' = sender m \<and> senderId m' = senderId m
           \<and> message m' = message m \<and> room m' = room m \<and> isPrivate m' = isPrivate m
           \<and> recipientId m' = recipientId m \<and> delivered m' = delivered m \<and> read m' = read m
           \<and> edited m' = edited m \<and> img m' = img m \<and> createdAt m' = createdAt m"
proof -
  have i: "msg_id m = i" using assms by (rule findById_id)
  have f: "findById s (msg_id m) = Some m" using assms i by simp
  show ?thesis
  proof (cases "find_ok e")
    case True
    then have "add_reaction e s u i em = add_reaction_saved e s u m em"
      using assms by (simp add: add_reaction_def)
    with add_reaction_saved_frame [OF f, of e u em] i show ?thesis by simp
  next
    case False
    then have "add_reaction e s u i em = (s, [])" by (simp add: add_reaction_def)
    with assms show ?thesis by simp
  qed
qed

theorem add_reaction_frame_witness:
  "findById s_msg 0 = Some (m0\<lparr>reactions := [r0]\<rparr>)
   \<and> (\<exists>m'. findById (fst (add_reaction env0 s_msg ''b'' 0 ''y'')) 0 = Some m'
           \<and> msg_id m' = 0 \<and> sender m' = ''alice'' \<and> senderId m' = ''a''
           \<and> message m' = ''hi'' \<and> room m' = ''general'' \<and> isPrivate m' = False
           \<and> recipientId m' = None \<and> delivered m' = True \<and> read m' = False
           \<and> edited m' = False \<and> img m' = None \<and> createdAt m' = 7)"
proof -
  have f: "findById s_msg 0 = Some (m0\<lparr>reactions := [r0]\<rparr>)"
    by (simp add: findById_def s_msg_def m0_def new_Message_def)
  show ?thesis
    using f add_reaction_frame [OF f, of env0 "''b''" "''y''"]
    by (simp add: m0_def new_Message_def)
qed

subsection \<open>Two states that the server reaches\<close>

lemma s_a_eq:
  "s_a = \<lparr>users = [(''a'', \<lparr>uid = ''a'', username = ''alice'', uroom = ''general'', online = True, joinedAt = 7\<rparr>)],
          typingUsers = [], sockets = [(''a'', [''a'', ''general''])], db = [], next_id = 0,
          pending = []\<rparr>"
  by (simp add: s_a_def user_join_def connect_def init_def env0_def socket_join_def rooms_def
        object_prototype_names_def Let_def)

lemma s_ab_eq:
  "s_ab = \<lparr>users = [(''a'', \<lparr>uid = ''a'', username = ''alice'', uroom = ''general'', online = True, joinedAt = 7\<rparr>),
                     (''b'', \<lparr>uid = ''b'', username = ''bob'', uroom = ''general'', online = True, joinedAt = 7\<rparr>)],
          typingUsers = [], sockets = [(''a'', [''a'', ''general'']), (''b'', [''b'', ''general''])],
          db = [], next_id = 0, pending = []\<rparr>"
  by (simp add: s_ab_def s_a_eq user_join_def connect_def env0_def socket_join_def rooms_def
        object_prototype_names_def Let_def)

subsection \<open>Joining twice\<close>




subsection \<open>The guard of a room switch\<close>

text \<open>
  C6. \<open>join_room\<close> returns the state as it was and emits nothing when the connection
  is not registered, when the target is not one of the public rooms, or when the target
  is the connection's current room.
\<close>

theorem join_room_noop:
  assumes "map_of (users s) sid = None \<or> newRoom \<notin> set rooms
           \<or> (\<exists>u. map_of (users s) sid = Some u \<and> uroom u = newRoom)"
  shows "join_room e s sid newRoom = (s, [])"
  using assms by (auto simp: join_room_def split: option.splits)

theorem join_room_noop_witness:
  "(map_of (users s_a) ''zz'' = None \<and> join_room env0 s_a ''zz'' ''random'' = (s_a, []))
   \<and> (''lobby'' \<notin> set rooms \<and> join_room env0 s_a ''a'' ''lobby'' = (s_a, []))
   \<and> ((\<exists>u. map_of (users s_a) ''a'' = Some u \<and> uroom u = ''general'')
        \<and> join_room env0 s_a ''a'' ''general'' = (s_a, []))"
proof -
  have h1: "map_of (users s_a) ''zz'' = None" by (simp add: s_a_eq)
  have h2: "''lobby'' \<notin> set rooms" by (simp add: rooms_def)
  have h3: "\<exists>u. map_of (users s_a) ''a'' = Some u \<and> uroom u = ''general''" by (simp add: s_a_eq)
  show ?thesis
    using h1 h2 h3
      join_room_noop [of s_a "''zz''" "''random''" env0]
      join_room_noop [of s_a "''a''" "''lobby''" env0]
      join_room_noop [of s_a "''a''" "''general''" env0]
    by blast
qed

subsection \<open>Typing indicators\<close>

lemma delete_as_filter: "AList.delete k al = filter (\<lambda>p. fst p \<noteq> k) al"
  by (induction al) auto

lemma filter_update_ne:
  "filter (\<lambda>p. P p \<and> fst p \<noteq> k) (AList.update k v al) = filter (\<lambda>p. P p \<and> fst p \<noteq> k) al"
  by (induction al) auto

lemma filter_update_other:
  "filter (\<lambda>p. P p \<and> fst p \<noteq> k) (AList.update k v al) = filter P (AList.delete k al)"
  by (simp add: filter_update_ne delete_as_filter conj_commute)

text \<open>
  C4, as stated, fails: \<open>typing_stop\<close> emits with \<open>socket.broadcast.to(user.room)\<close>, as
  \<open>typing_start\<close> does. With \<open>a\<close> and \<open>b\<close> in the room general, the stop of \<open>a\<close> reaches
  \<open>b\<close> only, not everyone in the room.
\<close>

theorem typing_stop_to_all_counterexample:
  "map_of (users s_ab) ''a''
     = Some \<lparr>uid = ''a'', username = ''alice'', uroom = ''general'', online = True, joinedAt = 7\<rparr>
   \<and> in_room s_ab ''general'' = [''a'', ''b'']
   \<and> snd (typing_stop s_ab ''a'') = [([''b''], TypingUsers [])]"
  by (simp add: s_ab_eq typing_stop_def in_room_def socket_broadcast_to_def Let_def)

text \<open>
  C4, amended. For a registered connection in room \<open>R\<close>, \<open>typing_stop\<close> removes the
  connection's typing entry and \<open>typing_start\<close> sets it to the display name; each emits
  one \<open>typing_users\<close> event, to the sockets in \<open>R\<close> except the actor, and both carry the
  same list: the typing entries of the connections other than the actor whose registry
  room is \<open>R\<close>.
\<close>

theorem typing_broadcasts:
  assumes "map_of (users s) sid = Some u"
  shows "typing_stop s sid =
           (s\<lparr>typingUsers := AList.delete sid (typingUsers s)\<rparr>,
            [(filter (\<lambda>x. x \<noteq> sid) (in_room s (uroom u)),
              TypingUsers (map snd (filter (\<lambda>p. user_in_room s (fst p) (uroom u))
                                      (AList.delete sid (typingUsers s)))))])
       \<and> map_of (typingUsers (fst (typing_stop s sid))) sid = None
       \<and> typing_start s sid =
           (s\<lparr>typingUsers := AList.update sid (username u) (typingUsers s)\<rparr>,
            [(filter (\<lambda>x. x \<noteq> sid) (in_room s (uroom u)),
              TypingUsers (map snd (filter (\<lambda>p. user_in_room s (fst p) (uroom u))
                                      (AList.delete sid (typingUsers s)))))])
       \<and> map_of (typingUsers (fst (typing_start s sid))) sid = Some (username u)"
proof -
  have stop: "typing_stop s sid =
           (s\<lparr>typingUsers := AList.delete sid (typingUsers s)\<rparr>,
            [(filter (\<lambda>x. x \<noteq> sid) (in_room s (uroom u)),
              TypingUsers (map snd (filter (\<lambda>p. user_in_room s (fst p) (uroom u))
                                      (AList.delete sid (typingUsers s)))))])"
    using assms
    by (simp add: typing_stop_def Let_def socket_broadcast_to_def in_room_def user_in_room_def)
  have start: "typing_start s sid =
           (s\<lparr>typingUsers := AList.update sid (username u) (typingUsers s)\<rparr>,
            [(filter (\<lambda>x. x \<noteq> sid) (in_room s (uroom u)),
              TypingUsers (map snd (filter (\<lambda>p. user_in_room s (fst p) (uroom u))
                                      (AList.delete sid (typingUsers s)))))])"
    using assms filter_update_other [of "\<lambda>p. user_in_room s (fst p) (uroom u)" sid "username u" "typingUsers s"]
    by (simp add: typing_start_def Let_def socket_broadcast_to_def in_room_def user_in_room_def)
  show ?thesis unfolding stop start by (simp add: delete_conv' update_conv')
qed

theorem typing_broadcasts_witness:
  "map_of (users s_typing) ''a''
     = Some \<lparr>uid = ''a'', username = ''alice'', uroom = ''general'', online = True, joinedAt = 7\<rparr>
   \<and> typingUsers s_typing = [(''b'', ''bob''), (''a'', ''alice'')]
   \<and> typing_stop s_typing ''a''
       = (s_typing\<lparr>typingUsers := [(''b'', ''bob'')]\<rparr>, [([''b''], TypingUsers [''bob''])])
   \<and> typing_start s_typing ''a'' = (s_typing, [([''b''], TypingUsers [''bob''])])"
proof -
  have e: "s_typing = s_ab\<lparr>typingUsers := [(''b'', ''bob''), (''a'', ''alice'')]\<rparr>"
    by (simp add: s_typing_def s_ab_eq typing_start_def Let_def)
  have h: "map_of (users s_typing) ''a''
     = Some \<lparr>uid = ''a'', username = ''alice'', uroom = ''general'', online = True, joinedAt = 7\<rparr>"
    by (simp add: e s_ab_eq)
  show ?thesis using h typing_broadcasts [OF h]
    by (simp add: e s_ab_eq in_room_def user_in_room_def)
qed

subsection \<open>The history replayed on a room switch\<close>









subsection \<open>Invariants of the registry, the typing map and the transport\<close>

lemma list_all_update:
  "list_all P al \<Longrightarrow> P (k, v) \<Longrightarrow> list_all P (AList.update k v al)"
  by (induction al) auto

lemma list_all_delete: "list_all P al \<Longrightarrow> list_all P (AList.delete k al)"
  by (induction al) auto

lemma keys_update: "set (map fst (AList.update k v al)) = insert k (set (map fst al))"
  using dom_update [of k v al] by simp

lemma keys_delete: "set (map fst (AList.delete k al)) = set (map fst al) - {k}"
  by (simp add: delete_keys)

lemma distinct_keys_update: "distinct (map fst al) \<Longrightarrow> distinct (map fst (AList.update k v al))"
  by (simp add: distinct_update)

lemma distinct_keys_delete: "distinct (map fst al) \<Longrightarrow> distinct (map fst (AList.delete k al))"
  by (simp add: distinct_delete)

lemma map_of_key: "map_of al k = Some v \<Longrightarrow> k \<in> set (map fst al)"
  by (auto dest: map_of_SomeD intro: rev_image_eqI)

lemma socket_join_keys: "map fst (sockets (socket_join sid r s)) = map fst (sockets s)"
  by (simp add: socket_join_def comp_def if_distrib cong: if_cong)

lemma socket_leave_keys: "map fst (sockets (socket_leave sid r s)) = map fst (sockets s)"
  by (simp add: socket_leave_def comp_def if_distrib cong: if_cong)

lemma socket_join_fields:
  "users (socket_join sid r s) = users s" "typingUsers (socket_join sid r s) = typingUsers s"
  "db (socket_join sid r s) = db s" "next_id (socket_join sid r s) = next_id s"
  by (simp_all add: socket_join_def)

lemma socket_leave_fields:
  "users (socket_leave sid r s) = users s" "typingUsers (socket_leave sid r s) = typingUsers s"
  "db (socket_leave sid r s) = db s" "next_id (socket_leave sid r s) = next_id s"
  by (simp_all add: socket_leave_def)

lemma inv_frame:
  "users s' = users s \<Longrightarrow> typingUsers s' = typingUsers s \<Longrightarrow> sockets s' = sockets s \<Longrightarrow>
   inv s' = inv s"
  by (simp add: inv_def reg_ok_def typing_ok_def transport_ok_def)

lemma socket_rooms_ok_join:
  "socket_rooms_ok p \<Longrightarrow> r \<in> set rooms \<Longrightarrow>
   socket_rooms_ok (if fst p = sid \<and> r \<notin> set (snd p) then (fst p, snd p @ [r]) else p)"
  by (cases p) (auto simp: socket_rooms_ok_def)

lemma socket_rooms_ok_leave:
  "socket_rooms_ok p \<Longrightarrow> r \<in> set rooms \<Longrightarrow>
   socket_rooms_ok (if fst p = sid then (fst p, removeAll r (snd p)) else p)"
  by (cases p) (auto simp: socket_rooms_ok_def)

lemma all_ok_map_join:
  "list_all socket_rooms_ok xs \<Longrightarrow> r \<in> set rooms \<Longrightarrow>
   list_all socket_rooms_ok
     (map (\<lambda>p. if fst p = sid \<and> r \<notin> set (snd p) then (fst p, snd p @ [r]) else p) xs)"
proof (induction xs)
  case Nil
  then show ?case by simp
next
  case (Cons p xs)
  then show ?case using socket_rooms_ok_join [of p r sid] by simp
qed

lemma all_ok_map_leave:
  "list_all socket_rooms_ok xs \<Longrightarrow> r \<in> set rooms \<Longrightarrow>
   list_all socket_rooms_ok
     (map (\<lambda>p. if fst p = sid then (fst p, removeAll r (snd p)) else p) xs)"
proof (induction xs)
  case Nil
  then show ?case by simp
next
  case (Cons p xs)
  then show ?case using socket_rooms_ok_leave [of p r sid] by simp
qed

lemma transport_join:
  "list_all socket_rooms_ok (sockets s) \<Longrightarrow> r \<in> set rooms \<Longrightarrow>
   list_all socket_rooms_ok (sockets (socket_join sid r s))"
  by (simp add: socket_join_def all_ok_map_join)

lemma transport_leave:
  "list_all socket_rooms_ok (sockets s) \<Longrightarrow> r \<in> set rooms \<Longrightarrow>
   list_all socket_rooms_ok (sockets (socket_leave sid r s))"
  by (simp add: socket_leave_def all_ok_map_leave)

lemma inv_init: "inv init"
  by (simp add: inv_def reg_ok_def typing_ok_def transport_ok_def init_def)

lemma inv_connect: "inv s \<Longrightarrow> inv (fst (connect s sid))"
  by (auto simp: connect_def inv_def reg_ok_def typing_ok_def transport_ok_def socket_rooms_ok_def)

lemma user_join_fields:
  "users (fst (user_join e s sid name)) =
     AList.update sid \<lparr>uid = sid, username = name, uroom = ''general'', online = True,
                       joinedAt = now e\<rparr> (users s)"
  "typingUsers (fst (user_join e s sid name)) = typingUsers s"
  "sockets (fst (user_join e s sid name)) = sockets (socket_join sid ''general'' s)"
  "db (fst (user_join e s sid name)) = db s"
  by (simp_all add: user_join_def Let_def socket_join_def)

lemma general_room: "''general'' \<in> set rooms"
  by (simp add: rooms_def)

lemma inv_user_join:
  assumes "inv s" and "sid \<in> set (map fst (sockets s))"
  shows "inv (fst (user_join e s sid name))"
proof -
  let ?s' = "fst (user_join e s sid name)"
  let ?u = "\<lparr>uid = sid, username = name, uroom = ''general'', online = True, joinedAt = now e\<rparr>"
  have r: "reg_ok s" and t: "typing_ok s" and tr: "transport_ok s"
    using assms(1) by (simp_all add: inv_def)
  have "reg_ok ?s'"
    unfolding reg_ok_def user_join_fields
    using r by (simp add: reg_ok_def list_all_update distinct_keys_update general_room)
  moreover have "typing_ok ?s'"
    unfolding typing_ok_def user_join_fields keys_update
    using t by (auto simp: typing_ok_def)
  moreover have "transport_ok ?s'"
    unfolding transport_ok_def user_join_fields keys_update socket_join_keys
    using tr assms(2) transport_join [of s "''general''" sid]
    by (simp add: transport_ok_def general_room)
  ultimately show ?thesis by (simp add: inv_def)
qed

lemma join_room_fields:
  assumes "map_of (users s) sid = Some u" and "newRoom \<in> set rooms" and "uroom u \<noteq> newRoom"
  shows "users (fst (join_room e s sid newRoom)) = AList.update sid (u\<lparr>uroom := newRoom\<rparr>) (users s)"
    and "typingUsers (fst (join_room e s sid newRoom)) = typingUsers s"
    and "sockets (fst (join_room e s sid newRoom))
           = sockets (socket_join sid newRoom (socket_leave sid (uroom u) s))"
    and "db (fst (join_room e s sid newRoom)) = db s"
  using assms by (simp_all add: join_room_def Let_def socket_join_def socket_leave_def)

lemma reg_ok_entry:
  "reg_ok s \<Longrightarrow> map_of (users s) sid = Some u \<Longrightarrow>
   online u \<and> uid u = sid \<and> uroom u \<in> set rooms"
  by (auto simp: reg_ok_def list_all_iff dest!: map_of_SomeD)

lemma inv_join_room:
  assumes "inv s"
  shows "inv (fst (join_room e s sid newRoom))"
proof (cases "\<exists>u. map_of (users s) sid = Some u \<and> newRoom \<in> set rooms \<and> uroom u \<noteq> newRoom")
  case False
  then have "join_room e s sid newRoom = (s, [])"
    by (auto simp: join_room_def split: option.splits)
  with assms show ?thesis by simp
next
  case True
  then obtain u where u: "map_of (users s) sid = Some u" and n: "newRoom \<in> set rooms"
    and d: "uroom u \<noteq> newRoom" by blast
  let ?s' = "fst (join_room e s sid newRoom)"
  note f = join_room_fields [OF u n d, of e]
  have r: "reg_ok s" and t: "typing_ok s" and tr: "transport_ok s"
    using assms by (simp_all add: inv_def)
  note eu = reg_ok_entry [OF r u]
  have k: "sid \<in> set (map fst (users s))" using u by (rule map_of_key)
  have "reg_ok ?s'"
    unfolding reg_ok_def f
    using r eu n by (simp add: reg_ok_def list_all_update distinct_keys_update)
  moreover have "typing_ok ?s'"
    unfolding typing_ok_def f keys_update
    using t by (auto simp: typing_ok_def)
  moreover have "transport_ok ?s'"
    unfolding transport_ok_def f keys_update socket_join_keys socket_leave_keys
    using tr k eu n transport_join [OF transport_leave, of s "uroom u" newRoom sid sid]
    by (auto simp: transport_ok_def)
  ultimately show ?thesis by (simp add: inv_def)
qed

lemma keys_update_img: "fst ` set (AList.update k v al) = insert k (fst ` set al)"
  using dom_update [of k v al] by simp

lemma keys_delete_img: "fst ` set (AList.delete k al) = fst ` set al - {k}"
  using keys_delete [of k al] by simp

lemma typing_start_fields:
  assumes "map_of (users s) sid = Some u"
  shows "users (fst (typing_start s sid)) = users s"
    and "typingUsers (fst (typing_start s sid)) = AList.update sid (username u) (typingUsers s)"
    and "sockets (fst (typing_start s sid)) = sockets s"
    and "db (fst (typing_start s sid)) = db s"
  using assms by (simp_all add: typing_start_def Let_def)

lemma inv_typing_start:
  assumes "inv s"
  shows "inv (fst (typing_start s sid))"
proof (cases "map_of (users s) sid")
  case None
  then have "typing_start s sid = (s, [])" by (simp add: typing_start_def)
  with assms show ?thesis by simp
next
  case (Some u)
  note f = typing_start_fields [OF Some]
  have k: "sid \<in> fst ` set (users s)" using map_of_key [OF Some] by simp
  show ?thesis
    using assms k unfolding inv_def reg_ok_def typing_ok_def transport_ok_def f
    by (simp add: keys_update_img distinct_keys_update)
qed

lemma typing_stop_fields:
  "users (fst (typing_stop s sid)) = users s"
  "sockets (fst (typing_stop s sid)) = sockets s"
  "db (fst (typing_stop s sid)) = db s"
  "typingUsers (fst (typing_stop s sid))
     = (if sid \<in> set (map fst (users s)) then AList.delete sid (typingUsers s) else typingUsers s)"
  by (auto simp: typing_stop_def Let_def map_of_eq_None_iff dest: map_of_key split: option.splits)

lemma inv_typing_stop:
  assumes "inv s"
  shows "inv (fst (typing_stop s sid))"
  using assms unfolding inv_def reg_ok_def typing_ok_def transport_ok_def typing_stop_fields
  by (auto simp: keys_delete_img distinct_keys_delete)

lemma disconnect_fields:
  "users (fst (disconnect s sid)) = AList.delete sid (users s)"
  "typingUsers (fst (disconnect s sid))
     = (if sid \<in> set (map fst (users s)) then AList.delete sid (typingUsers s) else typingUsers s)"
  "sockets (fst (disconnect s sid)) = AList.delete sid (sockets s)"
  "db (fst (disconnect s sid)) = db s"
  by (auto simp: disconnect_def Let_def delete_update_same map_of_eq_None_iff
        dest: map_of_key split: option.splits)

lemma inv_disconnect:
  assumes "inv s"
  shows "inv (fst (disconnect s sid))"
proof -
  let ?s' = "fst (disconnect s sid)"
  have r: "reg_ok s" and t: "typing_ok s" and tr: "transport_ok s"
    using assms by (simp_all add: inv_def)
  have "reg_ok ?s'"
    unfolding reg_ok_def disconnect_fields
    using r by (simp add: reg_ok_def list_all_delete distinct_keys_delete)
  moreover have "typing_ok ?s'"
    unfolding typing_ok_def disconnect_fields
    using t by (auto simp: typing_ok_def keys_delete_img distinct_keys_delete)
  moreover have "transport_ok ?s'"
    unfolding transport_ok_def disconnect_fields keys_delete
    using tr by (auto simp: transport_ok_def list_all_delete distinct_keys_delete)
  ultimately show ?thesis by (simp add: inv_def)
qed

lemma save_new_fields:
  "save_new e m s = Some (m', s') \<Longrightarrow>
   users s' = users s \<and> typingUsers s' = typingUsers s \<and> sockets s' = sockets s"
  by (auto simp: save_new_def Let_def split: if_splits)

lemma findByIdAndUpdate_fields:
  "findByIdAndUpdate e s i upd = Some (m', s') \<Longrightarrow>
   users s' = users s \<and> typingUsers s' = typingUsers s \<and> sockets s' = sockets s"
  by (auto simp: findByIdAndUpdate_def Let_def split: option.splits)

lemma send_message_fields:
  "users (fst (send_message e s sid body rm im)) = users s
   \<and> typingUsers (fst (send_message e s sid body rm im)) = typingUsers s
   \<and> sockets (fst (send_message e s sid body rm im)) = sockets s"
  by (auto simp: send_message_def Let_def split: option.splits dest: save_new_fields)

lemma edit_message_fields:
  "users (fst (edit_message e s i c)) = users s
   \<and> typingUsers (fst (edit_message e s i c)) = typingUsers s
   \<and> sockets (fst (edit_message e s i c)) = sockets s"
  by (auto simp: edit_message_def split: option.splits dest: findByIdAndUpdate_fields)

lemma delete_message_fields:
  "users (fst (delete_message e s i)) = users s
   \<and> typingUsers (fst (delete_message e s i)) = typingUsers s
   \<and> sockets (fst (delete_message e s i)) = sockets s"
  by (auto simp: delete_message_def Let_def split: option.splits)

lemma add_reaction_start_fields:
  "users (fst (add_reaction_start e s sid i em)) = users s
   \<and> typingUsers (fst (add_reaction_start e s sid i em)) = typingUsers s
   \<and> sockets (fst (add_reaction_start e s sid i em)) = sockets s"
  by (auto simp: add_reaction_start_def split: option.splits)

lemma add_reaction_saved_fields:
  "users (fst (add_reaction_saved e s sid m em)) = users s
   \<and> typingUsers (fst (add_reaction_saved e s sid m em)) = typingUsers s
   \<and> sockets (fst (add_reaction_saved e s sid m em)) = sockets s"
  by (auto simp: add_reaction_saved_def Let_def split: option.splits)

lemma message_read_fields:
  "users (fst (message_read e s i)) = users s
   \<and> typingUsers (fst (message_read e s i)) = typingUsers s
   \<and> sockets (fst (message_read e s i)) = sockets s"
  by (auto simp: message_read_def split: option.splits dest: findByIdAndUpdate_fields)

lemma private_message_fields:
  "users (fst (private_message rt s sid t b)) = users s
   \<and> typingUsers (fst (private_message rt s sid t b)) = typingUsers s
   \<and> sockets (fst (private_message rt s sid t b)) = sockets s"
  by (auto simp: private_message_def Let_def split: option.splits)

lemma private_message_saved_fields:
  "users (fst (private_message_saved e s sid t n m)) = users s
   \<and> typingUsers (fst (private_message_saved e s sid t n m)) = typingUsers s
   \<and> sockets (fst (private_message_saved e s sid t n m)) = sockets s"
  by (auto simp: private_message_saved_def split: option.splits dest: save_new_fields)

lemma resume_fields:
  "users (fst (resume e s k)) = users s
   \<and> typingUsers (fst (resume e s k)) = typingUsers s
   \<and> sockets (fst (resume e s k)) = sockets s"
proof (cases "k < length (pending s)")
  case False
  then show ?thesis by (simp add: resume_def)
next
  case True
  let ?s1 = "s\<lparr>pending := take k (pending s) @ drop (Suc k) (pending s)\<rparr>"
  show ?thesis
  proof (cases "pending s ! k")
    case (SaveReaction sid m em)
    with True add_reaction_saved_fields [of e ?s1 sid m em] show ?thesis
      by (simp add: resume_def)
  next
    case (SavePrivate sid t n m)
    with True private_message_saved_fields [of e ?s1 sid t n m] show ?thesis
      by (simp add: resume_def)
  qed
qed

lemma inv_step:
  assumes "inv s"
  shows "inv (fst (step rt e s ev))"
proof (cases ev)
  case (Connect sid)
  then show ?thesis using inv_connect [OF assms] by (simp add: step_def)
next
  case (UserJoin sid name)
  then show ?thesis using assms inv_user_join [OF assms, of sid e name] by (simp add: step_def)
next
  case (SendMessage sid body rm im)
  then show ?thesis using assms inv_frame [of "fst (send_message e s sid body rm im)" s]
    by (simp add: step_def send_message_fields)
next
  case (EditMessage sid i c)
  then show ?thesis using assms inv_frame [of "fst (edit_message e s i c)" s]
    by (simp add: step_def edit_message_fields)
next
  case (DeleteMessage sid i)
  then show ?thesis using assms inv_frame [of "fst (delete_message e s i)" s]
    by (simp add: step_def delete_message_fields)
next
  case (JoinRoom sid r)
  then show ?thesis using assms inv_join_room [OF assms, of e sid r] by (simp add: step_def)
next
  case (TypingStart sid)
  then show ?thesis using assms inv_typing_start [OF assms, of sid] by (simp add: step_def)
next
  case (TypingStop sid)
  then show ?thesis using assms inv_typing_stop [OF assms, of sid] by (simp add: step_def)
next
  case (AddReaction sid i em)
  then show ?thesis using assms inv_frame [of "fst (add_reaction_start e s sid i em)" s]
    by (simp add: step_def add_reaction_start_fields)
next
  case (MessageRead sid i)
  then show ?thesis using assms inv_frame [of "fst (message_read e s i)" s]
    by (simp add: step_def message_read_fields)
next
  case (PrivateMessage sid t b)
  then show ?thesis using assms inv_frame [of "fst (private_message rt s sid t b)" s]
    by (simp add: step_def private_message_fields)
next
  case (Disconnect sid)
  then show ?thesis using assms inv_disconnect [OF assms, of sid] by (simp add: step_def)
next
  case (Resume k)
  then show ?thesis using assms inv_frame [of "fst (resume e s k)" s]
    by (simp add: step_def resume_fields)
qed

lemma run_Cons_state: "fst (run rt (p # tr) s) = fst (run rt tr (fst (step rt (fst p) s (snd p))))"
  by (simp split: prod.splits)


lemma inv_run: "inv s \<Longrightarrow> inv (fst (run rt tr s))"
proof (induction tr arbitrary: s)
  case Nil
  then show ?case by simp
next
  case (Cons p tr)
  from Cons.IH [OF inv_step [OF Cons.prems]] show ?case
    unfolding run_Cons_state .
qed

lemma inv_reachable: "inv (fst (run rt tr init))"
  using inv_init by (rule inv_run)

subsection \<open>The roster\<close>









lemma connect_out: "snd (connect s sid) = []"
  by (simp add: connect_def)


lemma step_cases:
  "step rt e s ev = handle rt e s ev \<or> step rt e s ev = (s, [])"
  by (cases ev) (simp_all add: step_def)



lemma s_ab_reached:
  "s_ab = fst (run rt [(env0, Connect ''a''), (env0, UserJoin ''a'' ''alice''),
                       (env0, Connect ''b''), (env0, UserJoin ''b'' ''bob'')] init)"
proof -
  have c1: "fst (step rt env0 init (Connect ''a'')) = fst (connect init ''a'')"
    by (simp add: step_def)
  have c2: "fst (step rt env0 (fst (connect init ''a'')) (UserJoin ''a'' ''alice'')) = s_a"
    by (simp add: step_def s_a_def connect_def init_def rooms_def object_prototype_names_def)
  have c3: "fst (step rt env0 s_a (Connect ''b'')) = fst (connect s_a ''b'')"
    by (simp add: step_def)
  have c4: "fst (step rt env0 (fst (connect s_a ''b'')) (UserJoin ''b'' ''bob'')) = s_ab"
    by (simp add: step_def s_ab_def connect_def s_a_eq rooms_def object_prototype_names_def)
  show ?thesis
    by (simp only: run_Cons_state run.simps(1) fst_conv snd_conv c1 c2 c3 c4)
qed


subsection \<open>Private messages\<close>

lemma own_room_only:
  "distinct (map fst xs) \<Longrightarrow> k \<in> set (map fst xs) \<Longrightarrow>
   map fst (filter (\<lambda>p. fst p = k) xs) = [k]"
proof (induction xs)
  case Nil
  then show ?case by simp
next
  case (Cons p xs)
  show ?case
  proof (cases "fst p = k")
    case True
    with Cons.prems have "k \<notin> fst ` set xs" by auto
    then have "filter (\<lambda>p. fst p = k) xs = []" by (auto simp: filter_empty_conv)
    with True show ?thesis by simp
  next
    case False
    with Cons show ?thesis by auto
  qed
qed

lemma io_to_socket_id:
  assumes "transport_ok s" and "k \<notin> set rooms"
  shows "io_to s k = (if k \<in> set (map fst (sockets s)) then [k] else [])"
proof -
  have a: "list_all socket_rooms_ok (sockets s)" and d: "distinct (map fst (sockets s))"
    using assms(1) by (simp_all add: transport_ok_def)
  have f: "filter (\<lambda>p. k \<in> set (snd p)) (sockets s) = filter (\<lambda>p. fst p = k) (sockets s)"
  proof (rule filter_cong [OF refl])
    fix p assume "p \<in> set (sockets s)"
    with a have "socket_rooms_ok p" by (simp add: list_all_iff)
    with assms(2) show "(k \<in> set (snd p)) = (fst p = k)"
      by (auto simp: socket_rooms_ok_def)
  qed
  show ?thesis
  proof (cases "k \<in> set (map fst (sockets s))")
    case True
    with own_room_only [OF d True] f show ?thesis by (simp add: io_to_def in_room_def)
  next
    case False
    then have "filter (\<lambda>p. fst p = k) (sockets s) = []" by (auto simp: filter_empty_conv)
    with False f show ?thesis by (simp add: io_to_def in_room_def)
  qed
qed

lemma socket_id_no_room:
  "transport_ok s \<Longrightarrow> k \<in> set (map fst (sockets s)) \<Longrightarrow> k \<notin> set rooms"
  by (auto simp: transport_ok_def list_all_iff socket_rooms_ok_def)

lemma io_to_save_new: "save_new e m s = Some (m', s') \<Longrightarrow> io_to s' r = io_to s r"
  by (auto simp: save_new_def io_to_def in_room_def Let_def split: if_splits)

lemma save_new_msg:
  "save_new e m s = Some (m', s') \<Longrightarrow>
   m' = m\<lparr>msg_id := next_id s, createdAt := now e, updatedAt := now e\<rparr>"
  by (auto simp: save_new_def Let_def split: if_splits)

lemma pending_ok_frame: "pending s' = pending s \<Longrightarrow> pending_ok rt s' = pending_ok rt s"
  by (simp add: pending_ok_def)

lemma pending_unchanged:
  "pending (fst (connect s sid)) = pending s"
  "pending (fst (user_join e s sid name)) = pending s"
  "pending (fst (send_message e s sid body rm im)) = pending s"
  "pending (fst (edit_message e s i c)) = pending s"
  "pending (fst (delete_message e s i)) = pending s"
  "pending (fst (join_room e s sid r)) = pending s"
  "pending (fst (typing_start s sid)) = pending s"
  "pending (fst (typing_stop s sid)) = pending s"
  "pending (fst (message_read e s i)) = pending s"
  "pending (fst (disconnect s sid)) = pending s"
  "pending (fst (add_reaction_saved e s sid m em)) = pending s"
  "pending (fst (private_message_saved e s sid t n m)) = pending s"
  by (auto simp: connect_def user_join_def send_message_def edit_message_def delete_message_def
        join_room_def typing_start_def typing_stop_def message_read_def disconnect_def
        add_reaction_saved_def private_message_saved_def save_new_def findByIdAndUpdate_def
        socket_join_def socket_leave_def Let_def split: option.splits if_splits)

lemma prototype_names_no_room: "t \<in> set object_prototype_names \<Longrightarrow> t \<notin> set rooms"
  by (auto simp: object_prototype_names_def rooms_def)

lemma registered_no_room:
  assumes "inv s" and "map_of (users s) k = Some u"
  shows "k \<notin> set rooms"
proof -
  have t: "transport_ok s" using assms(1) by (simp add: inv_def)
  then have "set (map fst (users s)) \<subseteq> set (map fst (sockets s))" by (simp add: transport_ok_def)
  with map_of_key [OF assms(2)] have "k \<in> set (map fst (sockets s))" by blast
  with t show ?thesis by (rule socket_id_no_room)
qed

lemma users_truthy_no_room:
  assumes "inv s" and "users_truthy s t"
  shows "t \<notin> set rooms"
proof (cases "map_of (users s) t")
  case None
  with assms(2) have "t \<in> set object_prototype_names" by (simp add: users_truthy_def)
  then show ?thesis by (rule prototype_names_no_room)
next
  case (Some u)
  with assms(1) show ?thesis by (rule registered_no_room)
qed

lemma pending_ok_private_message:
  assumes "inv s" and "pending_ok rt s"
  shows "pending_ok rt (fst (private_message rt s sid t body))"
proof (cases "map_of (users s) sid")
  case None
  with assms(2) show ?thesis by (simp add: private_message_def)
next
  case (Some u)
  show ?thesis
  proof (cases "users_truthy s t")
    case False
    with Some assms(2) show ?thesis by (simp add: private_message_def)
  next
    case True
    have "sid \<notin> set rooms" using assms(1) Some by (rule registered_no_room)
    moreover have "t \<notin> set rooms" using assms(1) True by (rule users_truthy_no_room)
    ultimately show ?thesis using Some True assms(2)
      by (simp add: private_message_def pending_ok_def Let_def new_Message_def)
  qed
qed

lemma pending_ok_add_reaction_start:
  "pending_ok rt s \<Longrightarrow> pending_ok rt (fst (add_reaction_start e s sid i em))"
  by (auto simp: add_reaction_start_def pending_ok_def split: option.splits)

lemma list_all_remove: "list_all P xs \<Longrightarrow> list_all P (take k xs @ drop (Suc k) xs)"
  by (auto simp: list_all_iff dest: in_set_takeD in_set_dropD)

lemma pending_ok_resume:
  assumes "pending_ok rt s"
  shows "pending_ok rt (fst (resume e s k))"
proof (cases "k < length (pending s)")
  case False
  with assms show ?thesis by (simp add: resume_def)
next
  case True
  let ?s1 = "s\<lparr>pending := take k (pending s) @ drop (Suc k) (pending s)\<rparr>"
  have ok1: "pending_ok rt ?s1"
    using list_all_remove [of "pending_item_ok rt" "pending s" k] assms
    by (simp add: pending_ok_def del: list_all_append)
  show ?thesis
  proof (cases "pending s ! k")
    case (SaveReaction sid m em)
    with True ok1 pending_ok_frame [OF pending_unchanged(11), of rt e ?s1 sid m em]
    show ?thesis by (simp add: resume_def)
  next
    case (SavePrivate sid t n m)
    with True ok1 pending_ok_frame [OF pending_unchanged(12), of rt e ?s1 sid t n m]
    show ?thesis by (simp add: resume_def)
  qed
qed

lemma pending_ok_handle:
  assumes "inv s" and "pending_ok rt s"
  shows "pending_ok rt (fst (handle rt e s ev))"
proof (cases ev)
  case (AddReaction sid i em)
  then show ?thesis using assms(2) by (simp add: pending_ok_add_reaction_start)
next
  case (PrivateMessage sid t b)
  then show ?thesis using assms by (simp add: pending_ok_private_message)
next
  case (Resume k)
  then show ?thesis using assms(2) by (simp add: pending_ok_resume)
qed (use assms(2) in \<open>simp_all add: pending_ok_def pending_unchanged\<close>)

lemma pending_ok_step:
  assumes "inv s" and "pending_ok rt s"
  shows "pending_ok rt (fst (step rt e s ev))"
  using step_cases [of rt e s ev] pending_ok_handle [OF assms, of e ev] assms(2) by auto

lemma inv_pending_run:
  "inv s \<Longrightarrow> pending_ok rt s \<Longrightarrow> pending_ok rt (fst (run rt tr s))"
proof (induction tr arbitrary: s)
  case Nil
  then show ?case by simp
next
  case (Cons p tr)
  from Cons.IH [OF inv_step [OF Cons.prems(1)] pending_ok_step [OF Cons.prems]]
  show ?case unfolding run_Cons_state .
qed

lemma pending_ok_reachable: "pending_ok rt (fst (run rt tr init))"
proof (rule inv_pending_run [OF inv_init])
  show "pending_ok rt init" by (simp add: pending_ok_def init_def)
qed

lemma private_message_saved_out:
  assumes "transport_ok s" and "A \<notin> set rooms" and "B \<notin> set rooms"
    and "save_new e nm s = Some (m, s')"
  shows "private_message_saved e s A B sname nm =
           (s', [(socket_of s A, ReceiveMessage m), (socket_of s B, ReceiveMessage m),
                 (socket_of s B,
                    Notification Private (''New private message from '' @ sname) (room nm))])"
proof -
  have a: "io_to s' A = socket_of s A"
    using io_to_save_new [OF assms(4)] io_to_socket_id [OF assms(1,2)] by (simp add: socket_of_def)
  have b: "io_to s' B = socket_of s B"
    using io_to_save_new [OF assms(4)] io_to_socket_id [OF assms(1,3)] by (simp add: socket_of_def)
  show ?thesis using assms(4) a b by (simp add: private_message_saved_def)
qed

lemma private_message_saved_recipients:
  assumes "transport_ok s" and "A \<notin> set rooms" and "B \<notin> set rooms"
    and "em \<in> set (snd (private_message_saved e s A B sname nm))"
  shows "set (fst em) \<subseteq> {A, B}"
proof (cases "save_new e nm s")
  case None
  with assms(4) show ?thesis by (simp add: private_message_saved_def)
next
  case (Some r)
  obtain m s' where r: "r = (m, s')" by (cases r)
  from private_message_saved_out [OF assms(1-3) Some [unfolded r], of sname] assms(4)
  show ?thesis by (auto simp: socket_of_def split: if_splits)
qed

lemma resume_private:
  assumes "k < length (pending s)" and "pending s ! k = SavePrivate A B sname nm"
  shows "resume e s k
           = private_message_saved e (s\<lparr>pending := take k (pending s) @ drop (Suc k) (pending s)\<rparr>)
               A B sname nm"
  using assms by (simp add: resume_def)

lemma private_message_inherited_name:
  "map_of (users s) A = Some ua \<Longrightarrow> B \<in> set object_prototype_names \<Longrightarrow>
   private_message rt s A B body =
     (s\<lparr>pending := pending s @ [SavePrivate A B (username ua)
          (new_Message (username ua) A body (privateRoomId rt A B) True (Some B) None)]\<rparr>, [])"
  by (simp add: private_message_def users_truthy_def Let_def split: option.splits)

text \<open>
  C8, amended. In every state that the server reaches:
  \<^item> a \<open>private_message\<close> from \<open>A\<close> to \<open>B\<close> changes nothing and emits nothing when \<open>A\<close> is
    not registered, and when \<open>B\<close> is not registered and is not a name that objects inherit;
  \<^item> when both are registered, nothing is emitted yet and one save is pending, of a private
    message from \<open>A\<close> addressed to \<open>B\<close> whose room is the identifier that the handler
    computes from the two ids;
  \<^item> when a pending save of a private message returns, in whatever state the server then
    is: if it failed, nothing is emitted; if it succeeded, exactly three events are
    emitted, \<open>receive_message\<close> to the connection \<open>A\<close>, \<open>receive_message\<close> to the connection
    \<open>B\<close> and a notification of type private to the connection \<open>B\<close>, each to that
    connection alone if it is still connected and to nobody otherwise; so no third
    connection receives anything.
\<close>

theorem private_message_delivery:
  assumes "s = fst (run rt tr init)"
  shows "(map_of (users s) A = None \<longrightarrow> private_message rt s A B body = (s, []))
       \<and> (map_of (users s) B = None \<and> B \<notin> set object_prototype_names \<longrightarrow>
            private_message rt s A B body = (s, []))
       \<and> (map_of (users s) A = Some ua \<and> map_of (users s) B = Some ub \<longrightarrow>
            private_message rt s A B body =
              (s\<lparr>pending := pending s @ [SavePrivate A B (username ua)
                   (new_Message (username ua) A body
                      (''private-'' @ ToString rt (Math_min (ToNumber rt A) (ToNumber rt B)) @ ''-'' @ ToString rt (Math_max (ToNumber rt A) (ToNumber rt B)))
                      True (Some B) None)]\<rparr>, []))
       \<and> (k < length (pending s) \<and> pending s ! k = SavePrivate A2 B2 sname nm \<longrightarrow>
            nm = new_Message sname A2 (message nm)
                   (''private-'' @ ToString rt (Math_min (ToNumber rt A2) (ToNumber rt B2)) @ ''-'' @ ToString rt (Math_max (ToNumber rt A2) (ToNumber rt B2)))
                   True (Some B2) None
            \<and> (save_new e nm (s\<lparr>pending := take k (pending s) @ drop (Suc k) (pending s)\<rparr>) = None \<longrightarrow>
                 resume e s k = ((s\<lparr>pending := take k (pending s) @ drop (Suc k) (pending s)\<rparr>), []))
            \<and> (save_new e nm (s\<lparr>pending := take k (pending s) @ drop (Suc k) (pending s)\<rparr>) = Some (m, s') \<longrightarrow>
                 resume e s k =
                   (s', [(socket_of s A2, ReceiveMessage m), (socket_of s B2, ReceiveMessage m),
                         (socket_of s B2,
                            Notification Private (''New private message from '' @ sname)
                              (''private-'' @ ToString rt (Math_min (ToNumber rt A2) (ToNumber rt B2)) @ ''-'' @ ToString rt (Math_max (ToNumber rt A2) (ToNumber rt B2))))])
                 \<and> m = nm\<lparr>msg_id := next_id s, createdAt := now e, updatedAt := now e\<rparr>
                 \<and> isPrivate m \<and> senderId m = A2 \<and> recipientId m = Some B2
                 \<and> room m = (''private-'' @ ToString rt (Math_min (ToNumber rt A2) (ToNumber rt B2)) @ ''-'' @ ToString rt (Math_max (ToNumber rt A2) (ToNumber rt B2))))
            \<and> (C \<noteq> A2 \<and> C \<noteq> B2 \<longrightarrow> (\<forall>em\<in>set (snd (resume e s k)). C \<notin> set (fst em))))"
proof -
  have i: "inv s" unfolding assms by (rule inv_reachable)
  have p: "pending_ok rt s" unfolding assms by (rule pending_ok_reachable)
  have g1: "map_of (users s) A = None \<longrightarrow> private_message rt s A B body = (s, [])"
    by (simp add: private_message_def)
  have g2: "map_of (users s) B = None \<and> B \<notin> set object_prototype_names \<longrightarrow>
            private_message rt s A B body = (s, [])"
    by (simp add: private_message_def users_truthy_def split: option.splits)
  have g3: "map_of (users s) A = Some ua \<and> map_of (users s) B = Some ub \<longrightarrow>
            private_message rt s A B body =
              (s\<lparr>pending := pending s @ [SavePrivate A B (username ua)
                   (new_Message (username ua) A body
                      (''private-'' @ ToString rt (Math_min (ToNumber rt A) (ToNumber rt B)) @ ''-'' @ ToString rt (Math_max (ToNumber rt A) (ToNumber rt B)))
                      True (Some B) None)]\<rparr>, [])"
    by (simp add: private_message_def users_truthy_def privateRoomId_def Let_def)
  have d: "nm = new_Message sname A2 (message nm)
                   (''private-'' @ ToString rt (Math_min (ToNumber rt A2) (ToNumber rt B2)) @ ''-'' @ ToString rt (Math_max (ToNumber rt A2) (ToNumber rt B2)))
                   True (Some B2) None
            \<and> (save_new e nm (s\<lparr>pending := take k (pending s) @ drop (Suc k) (pending s)\<rparr>) = None \<longrightarrow>
                 resume e s k = ((s\<lparr>pending := take k (pending s) @ drop (Suc k) (pending s)\<rparr>), []))
            \<and> (save_new e nm (s\<lparr>pending := take k (pending s) @ drop (Suc k) (pending s)\<rparr>) = Some (m, s') \<longrightarrow>
                 resume e s k =
                   (s', [(socket_of s A2, ReceiveMessage m), (socket_of s B2, ReceiveMessage m),
                         (socket_of s B2,
                            Notification Private (''New private message from '' @ sname)
                              (''private-'' @ ToString rt (Math_min (ToNumber rt A2) (ToNumber rt B2)) @ ''-'' @ ToString rt (Math_max (ToNumber rt A2) (ToNumber rt B2))))])
                 \<and> m = nm\<lparr>msg_id := next_id s, createdAt := now e, updatedAt := now e\<rparr>
                 \<and> isPrivate m \<and> senderId m = A2 \<and> recipientId m = Some B2
                 \<and> room m = (''private-'' @ ToString rt (Math_min (ToNumber rt A2) (ToNumber rt B2)) @ ''-'' @ ToString rt (Math_max (ToNumber rt A2) (ToNumber rt B2))))
            \<and> (C \<noteq> A2 \<and> C \<noteq> B2 \<longrightarrow> (\<forall>em\<in>set (snd (resume e s k)). C \<notin> set (fst em)))"
    if k: "k < length (pending s)" and pk: "pending s ! k = SavePrivate A2 B2 sname nm"
  proof -
    let ?s1 = "(s\<lparr>pending := take k (pending s) @ drop (Suc k) (pending s)\<rparr>)"
    have "pending_item_ok rt (pending s ! k)"
      using p k by (simp add: pending_ok_def list_all_length)
    then have a: "A2 \<notin> set rooms" and b: "B2 \<notin> set rooms"
      and n: "nm = new_Message sname A2 (message nm) (privateRoomId rt A2 B2) True (Some B2) None"
      unfolding pk by simp_all
    have rm: "room nm = privateRoomId rt A2 B2" and pr: "isPrivate nm" and sn: "senderId nm = A2"
      and rc: "recipientId nm = Some B2"
      by (subst n, simp add: new_Message_def)+
    have t1: "transport_ok ?s1" using i by (simp add: inv_def transport_ok_def)
    have so: "\<And>x. socket_of ?s1 x = socket_of s x" by (simp add: socket_of_def)
    note r = resume_private [OF k pk, of e]
    have c1: "nm = new_Message sname A2 (message nm)
                   (''private-'' @ ToString rt (Math_min (ToNumber rt A2) (ToNumber rt B2)) @ ''-'' @ ToString rt (Math_max (ToNumber rt A2) (ToNumber rt B2)))
                   True (Some B2) None"
      using n by (simp add: privateRoomId_def)
    have c2: "save_new e nm ?s1 = None \<longrightarrow> resume e s k = (?s1, [])"
      unfolding r by (simp add: private_message_saved_def)
    have c3: "save_new e nm ?s1 = Some (m, s') \<longrightarrow>
                 resume e s k =
                   (s', [(socket_of s A2, ReceiveMessage m), (socket_of s B2, ReceiveMessage m),
                         (socket_of s B2,
                            Notification Private (''New private message from '' @ sname)
                              (''private-'' @ ToString rt (Math_min (ToNumber rt A2) (ToNumber rt B2)) @ ''-'' @ ToString rt (Math_max (ToNumber rt A2) (ToNumber rt B2))))])
                 \<and> m = nm\<lparr>msg_id := next_id s, createdAt := now e, updatedAt := now e\<rparr>
                 \<and> isPrivate m \<and> senderId m = A2 \<and> recipientId m = Some B2
                 \<and> room m = (''private-'' @ ToString rt (Math_min (ToNumber rt A2) (ToNumber rt B2)) @ ''-'' @ ToString rt (Math_max (ToNumber rt A2) (ToNumber rt B2)))"
    proof
      assume sv: "save_new e nm ?s1 = Some (m, s')"
      have m: "m = nm\<lparr>msg_id := next_id s, createdAt := now e, updatedAt := now e\<rparr>"
        using save_new_msg [OF sv] by simp
      have rr: "room nm = (''private-'' @ ToString rt (Math_min (ToNumber rt A2) (ToNumber rt B2)) @ ''-'' @ ToString rt (Math_max (ToNumber rt A2) (ToNumber rt B2)))"
        using rm by (simp add: privateRoomId_def)
      show "resume e s k =
                   (s', [(socket_of s A2, ReceiveMessage m), (socket_of s B2, ReceiveMessage m),
                         (socket_of s B2,
                            Notification Private (''New private message from '' @ sname)
                              (''private-'' @ ToString rt (Math_min (ToNumber rt A2) (ToNumber rt B2)) @ ''-'' @ ToString rt (Math_max (ToNumber rt A2) (ToNumber rt B2))))])
                 \<and> m = nm\<lparr>msg_id := next_id s, createdAt := now e, updatedAt := now e\<rparr>
                 \<and> isPrivate m \<and> senderId m = A2 \<and> recipientId m = Some B2
                 \<and> room m = (''private-'' @ ToString rt (Math_min (ToNumber rt A2) (ToNumber rt B2)) @ ''-'' @ ToString rt (Math_max (ToNumber rt A2) (ToNumber rt B2)))"
        unfolding r private_message_saved_out [OF t1 a b sv] so
        using m pr sn rc rr by simp
    qed
    have c4: "C \<noteq> A2 \<and> C \<noteq> B2 \<longrightarrow> (\<forall>em\<in>set (snd (resume e s k)). C \<notin> set (fst em))"
      unfolding r using private_message_saved_recipients [OF t1 a b, of _ e sname nm] by blast
    from c1 c2 c3 c4 show ?thesis by blast
  qed
  from g1 g2 g3 d show ?thesis by blast
qed

lemma room_a_b: "privateRoomId rt0 ''a'' ''b'' = ''private-NaN-NaN''"
  by (simp add: privateRoomId_def ToNumber_def never_numeric_def rt0_def)

lemma step_private_a_b:
  "step rt0 env0 s_ab (PrivateMessage ''a'' ''b'' ''hi'') = (s_pm, [])"
  by (simp add: step_def private_message_def users_truthy_def room_a_b s_pm_def pm_new_def
        s_ab_eq Let_def)

lemma step_disconnect_b:
  "step rt0 env0 s_pm (Disconnect ''b'')
     = (s_pm_gone,
        [([''a''], Notification Leave ''bob disconnected'' ''general''),
         ([''a''], UserList [\<lparr>r_id = ''a'', r_username = ''alice'', r_room = ''general'',
                               r_online = True\<rparr>])])"
  by (simp add: step_def disconnect_def s_pm_gone_def s_pm_def s_ab_eq Let_def
        socket_broadcast_to_def in_room_def io_emit_def roster_of_def)

lemma step_resume_gone:
  "step rt0 env0 s_pm_gone (Resume 0)
     = (s_pm_gone\<lparr>pending := [], db := [pm0], next_id := 1\<rparr>,
        [([''a''], ReceiveMessage pm0), ([], ReceiveMessage pm0),
         ([], Notification Private ''New private message from alice'' ''private-NaN-NaN'')])"
  by (simp add: step_def resume_def private_message_saved_def save_new_def validate_def
        s_pm_gone_def s_pm_def s_ab_eq pm_new_def pm0_def new_Message_def env0_def Let_def
        io_to_def in_room_def)

text \<open>
  C8, as stated, fails. \<open>a\<close> and \<open>b\<close> are registered when \<open>a\<close> sends \<open>b\<close> a private
  message; \<open>b\<close> disconnects while the save is under way; the save succeeds; \<open>a\<close> receives
  the message, and the two events for \<open>b\<close> reach nobody.
\<close>

theorem private_message_recipient_gone_counterexample:
  "map_of (users s_ab) ''a''
     = Some \<lparr>uid = ''a'', username = ''alice'', uroom = ''general'', online = True, joinedAt = 7\<rparr>
   \<and> map_of (users s_ab) ''b''
     = Some \<lparr>uid = ''b'', username = ''bob'', uroom = ''general'', online = True, joinedAt = 7\<rparr>
   \<and> run rt0 [(env0, PrivateMessage ''a'' ''b'' ''hi''), (env0, Disconnect ''b''),
               (env0, Resume 0)] s_ab
     = (s_pm_gone\<lparr>pending := [], db := [pm0], next_id := 1\<rparr>,
        [([''a''], Notification Leave ''bob disconnected'' ''general''),
         ([''a''], UserList [\<lparr>r_id = ''a'', r_username = ''alice'', r_room = ''general'',
                               r_online = True\<rparr>]),
         ([''a''], ReceiveMessage pm0), ([], ReceiveMessage pm0),
         ([], Notification Private ''New private message from alice'' ''private-NaN-NaN'')])"
proof -
  have r: "run rt0 [(env0, PrivateMessage ''a'' ''b'' ''hi''), (env0, Disconnect ''b''),
               (env0, Resume 0)] s_ab
     = (s_pm_gone\<lparr>pending := [], db := [pm0], next_id := 1\<rparr>,
        [([''a''], Notification Leave ''bob disconnected'' ''general''),
         ([''a''], UserList [\<lparr>r_id = ''a'', r_username = ''alice'', r_room = ''general'',
                               r_online = True\<rparr>]),
         ([''a''], ReceiveMessage pm0), ([], ReceiveMessage pm0),
         ([], Notification Private ''New private message from alice'' ''private-NaN-NaN'')])"
    by (simp only: run.simps fst_conv snd_conv step_private_a_b step_disconnect_b
          step_resume_gone prod.case append.simps)
  show ?thesis using r by (simp add: s_ab_eq)
qed

lemma s_pm_reached:
  "s_pm = fst (run rt0 [(env0, Connect ''a''), (env0, UserJoin ''a'' ''alice''),
                        (env0, Connect ''b''), (env0, UserJoin ''b'' ''bob''),
                        (env0, PrivateMessage ''a'' ''b'' ''hi'')] init)"
proof -
  have c1: "fst (step rt0 env0 init (Connect ''a'')) = fst (connect init ''a'')"
    by (simp add: step_def)
  have c2: "fst (step rt0 env0 (fst (connect init ''a'')) (UserJoin ''a'' ''alice'')) = s_a"
    by (simp add: step_def s_a_def connect_def init_def rooms_def object_prototype_names_def)
  have c3: "fst (step rt0 env0 s_a (Connect ''b'')) = fst (connect s_a ''b'')"
    by (simp add: step_def)
  have c4: "fst (step rt0 env0 (fst (connect s_a ''b'')) (UserJoin ''b'' ''bob'')) = s_ab"
    by (simp add: step_def s_ab_def connect_def s_a_eq rooms_def object_prototype_names_def)
  have c5: "fst (step rt0 env0 s_ab (PrivateMessage ''a'' ''b'' ''hi'')) = s_pm"
    by (simp add: step_private_a_b)
  show ?thesis
    by (simp only: run_Cons_state run.simps(1) fst_conv snd_conv c1 c2 c3 c4 c5)
qed

theorem private_message_delivery_witness:
  "s_ab = fst (run rt0 [(env0, Connect ''a''), (env0, UserJoin ''a'' ''alice''),
                        (env0, Connect ''b''), (env0, UserJoin ''b'' ''bob'')] init)
   \<and> private_message rt0 s_ab ''a'' ''zz'' ''hi'' = (s_ab, [])
   \<and> private_message rt0 s_ab ''zz'' ''b'' ''hi'' = (s_ab, [])
   \<and> private_message rt0 s_ab ''a'' ''b'' ''hi'' = (s_pm, [])
   \<and> s_pm = fst (run rt0 [(env0, Connect ''a''), (env0, UserJoin ''a'' ''alice''),
                          (env0, Connect ''b''), (env0, UserJoin ''b'' ''bob''),
                          (env0, PrivateMessage ''a'' ''b'' ''hi'')] init)
   \<and> resume env0 s_pm 0
       = (s_ab\<lparr>db := [pm0], next_id := 1\<rparr>,
          [([''a''], ReceiveMessage pm0), ([''b''], ReceiveMessage pm0),
           ([''b''], Notification Private ''New private message from alice'' ''private-NaN-NaN'')])"
proof -
  let ?ua = "\<lparr>uid = ''a'', username = ''alice'', uroom = ''general'', online = True, joinedAt = 7\<rparr>"
  let ?ub = "\<lparr>uid = ''b'', username = ''bob'', uroom = ''general'', online = True, joinedAt = 7\<rparr>"
  have h1: "s_ab = fst (run rt0 [(env0, Connect ''a''), (env0, UserJoin ''a'' ''alice''),
                        (env0, Connect ''b''), (env0, UserJoin ''b'' ''bob'')] init)"
    by (rule s_ab_reached)
  have h2: "s_pm = fst (run rt0 [(env0, Connect ''a''), (env0, UserJoin ''a'' ''alice''),
                          (env0, Connect ''b''), (env0, UserJoin ''b'' ''bob''),
                          (env0, PrivateMessage ''a'' ''b'' ''hi'')] init)"
    by (rule s_pm_reached)
  have a: "map_of (users s_ab) ''a'' = Some ?ua" and b: "map_of (users s_ab) ''b'' = Some ?ub"
    and z: "map_of (users s_ab) ''zz'' = None"
    by (simp_all add: s_ab_eq)
  have zp: "''zz'' \<notin> set object_prototype_names" by (simp add: object_prototype_names_def)
  have w1: "private_message rt0 s_ab ''a'' ''zz'' ''hi'' = (s_ab, [])"
    using private_message_delivery [OF h1, of "''a''" "''zz''" "''hi''"] z zp by blast
  have w2: "private_message rt0 s_ab ''zz'' ''b'' ''hi'' = (s_ab, [])"
    using private_message_delivery [OF h1, of "''zz''" "''b''" "''hi''"] z by blast
  have "private_message rt0 s_ab ''a'' ''b'' ''hi''
          = (s_ab\<lparr>pending := pending s_ab @ [SavePrivate ''a'' ''b'' (username ?ua)
               (new_Message (username ?ua) ''a'' ''hi''
                  (''private-'' @ ToString rt0 (Math_min (ToNumber rt0 ''a'') (ToNumber rt0 ''b''))
                     @ ''-'' @ ToString rt0 (Math_max (ToNumber rt0 ''a'') (ToNumber rt0 ''b'')))
                  True (Some ''b'') None)]\<rparr>, [])"
    using private_message_delivery [OF h1, of "''a''" "''b''" "''hi''" ?ua ?ub] a b by blast
  then have w3: "private_message rt0 s_ab ''a'' ''b'' ''hi'' = (s_pm, [])"
    by (simp add: s_pm_def pm_new_def s_ab_eq ToNumber_def never_numeric_def rt0_def)
  have k: "0 < length (pending s_pm)"
    and pk: "pending s_pm ! 0 = SavePrivate ''a'' ''b'' ''alice'' pm_new"
    by (simp_all add: s_pm_def)
  have sv: "save_new env0 pm_new (s_pm\<lparr>pending := take 0 (pending s_pm) @ drop (Suc 0) (pending s_pm)\<rparr>)
              = Some (pm0, s_ab\<lparr>db := [pm0], next_id := 1\<rparr>)"
    by (simp add: save_new_def validate_def pm_new_def pm0_def new_Message_def env0_def s_pm_def
          s_ab_eq Let_def)
  have "resume env0 s_pm 0
          = (s_ab\<lparr>db := [pm0], next_id := 1\<rparr>,
             [(socket_of s_pm ''a'', ReceiveMessage pm0), (socket_of s_pm ''b'', ReceiveMessage pm0),
              (socket_of s_pm ''b'',
                 Notification Private (''New private message from '' @ ''alice'')
                   (''private-'' @ ToString rt0 (Math_min (ToNumber rt0 ''a'') (ToNumber rt0 ''b''))
                      @ ''-'' @ ToString rt0 (Math_max (ToNumber rt0 ''a'') (ToNumber rt0 ''b''))))])"
    using private_message_delivery [OF h2, of _ _ _ _ _ 0 "''a''" "''b''" "''alice''" pm_new env0
        pm0 "s_ab\<lparr>db := [pm0], next_id := 1\<rparr>"] k pk sv
    by blast
  then have w4: "resume env0 s_pm 0
       = (s_ab\<lparr>db := [pm0], next_id := 1\<rparr>,
          [([''a''], ReceiveMessage pm0), ([''b''], ReceiveMessage pm0),
           ([''b''], Notification Private ''New private message from alice'' ''private-NaN-NaN'')])"
    by (simp add: socket_of_def s_pm_def s_ab_eq ToNumber_def never_numeric_def rt0_def)
  show ?thesis by (rule conjI [OF h1 conjI [OF w1 conjI [OF w2 conjI [OF w3 conjI [OF h2 w4]]]]])
qed

lemma private_message_to_constructor:
  "map_of (users s_ab) ''constructor'' = None
   \<and> private_message rt0 s_ab ''a'' ''constructor'' ''hi''
       = (s_ab\<lparr>pending := [SavePrivate ''a'' ''constructor'' ''alice''
            (new_Message ''alice'' ''a'' ''hi'' ''private-NaN-NaN'' True (Some ''constructor'')
               None)]\<rparr>, [])"
  by (simp add: private_message_def users_truthy_def object_prototype_names_def s_ab_eq
        privateRoomId_def ToNumber_def never_numeric_def rt0_def Let_def)

subsection \<open>After a disconnect\<close>
















subsection \<open>Two reactions of one user\<close>

lemma findIndex_None: "findIndex P xs = None \<Longrightarrow> x \<in> set xs \<Longrightarrow> \<not> P x"
  by (induction xs) (auto split: if_splits)

lemma findIndex_Some: "findIndex P xs = Some k \<Longrightarrow> k < length xs \<and> P (xs ! k)"
  by (induction xs arbitrary: k) (auto split: if_splits)

lemma set_emoji_keys:
  "map userId (rs[k := (rs ! k)\<lparr>emoji := em\<rparr>]) = map userId rs"
proof (cases "k < length rs")
  case True
  then have "(map userId rs)[k := map userId rs ! k] = map userId rs" by (simp only: list_update_id)
  with True show ?thesis by (simp add: map_update)
next
  case False
  then have "length rs \<le> k" by simp
  then show ?thesis by (simp only: list_update_beyond)
qed

text \<open>
  When no other turn runs between the fetch and the save, the handler keeps the user ids
  of the reactions distinct and leaves the user's entry with the emoji of the call.
\<close>

lemma add_reaction_uninterrupted:
  assumes "findById s i = Some m" and "distinct (map userId (reactions m))"
    and "find_ok e" and "write_ok e"
  shows "\<exists>m'. findById (fst (add_reaction e s u i em)) i = Some m'
           \<and> distinct (map userId (reactions m'))
           \<and> \<lparr>userId = u, emoji = em\<rparr> \<in> set (reactions m')"
proof -
  have i: "msg_id m = i" using assms(1) by (rule findById_id)
  have f: "findById s (msg_id m) = Some m" using assms(1) i by simp
  have r: "\<And>d'. msg_id d' = i \<Longrightarrow> findById (s\<lparr>db := replace_doc d' (db s)\<rparr>) i = Some d'"
    using assms(1) find_replace_doc_same by (simp add: findById_def)
  have a: "add_reaction e s u i em = add_reaction_saved e s u m em"
    using assms(1,3) by (simp add: add_reaction_def)
  show ?thesis
  proof (cases "findIndex (\<lambda>r. userId r = u) (reactions m)")
    case None
    then have "u \<notin> set (map userId (reactions m))"
      using findIndex_None [of "\<lambda>r. userId r = u" "reactions m"] by auto
    with None assms f i r show ?thesis
      by (simp add: a add_reaction_saved_def Let_def)
  next
    case (Some k)
    note k = findIndex_Some [OF Some]
    show ?thesis
    proof (cases "emoji (reactions m ! k) = em")
      case True
      have "reactions m ! k = \<lparr>userId = u, emoji = em\<rparr>" using k True by (cases "reactions m ! k") simp
      then have "\<lparr>userId = u, emoji = em\<rparr> \<in> set (reactions m)" using k by (metis nth_mem)
      with Some True assms f i show ?thesis
        by (simp add: a add_reaction_saved_def)
    next
      case False
      have "(reactions m ! k)\<lparr>emoji := em\<rparr> = \<lparr>userId = u, emoji = em\<rparr>"
        using k by (cases "reactions m ! k") simp
      then have "\<lparr>userId = u, emoji = em\<rparr> \<in> set ((reactions m)[k := (reactions m ! k)\<lparr>emoji := em\<rparr>])"
        using k by (metis set_update_memI)
      with Some False assms f i r show ?thesis
        by (simp add: a add_reaction_saved_def Let_def set_emoji_keys)
    qed
  qed
qed

text \<open>
  C3. The claim fails on the code when two \<open>add_reaction\<close> handlers of one connection
  overlap. The connection \<open>a\<close> joins, sends a message and reacts to it twice; both handlers
  fetch the message before either saves, neither copy has an entry of the user, both
  push, and the store appends both. The stored message then has two reactions of one
  user, with two different emojis. Without the overlap the handler does what the claim
  says (\<open>add_reaction_uninterrupted\<close>).
\<close>

theorem add_reaction_race:
  "map reactions (db (fst (run rt [(env0, Connect ''a''), (env0, UserJoin ''a'' ''alice''),
                                    (env0, SendMessage ''a'' (Some ''hi'') None None),
                                    (env0, AddReaction ''a'' 0 ''x''), (env0, AddReaction ''a'' 0 ''y''),
                                    (env0, Resume 0), (env0, Resume 0)] init)))
     = [[\<lparr>userId = ''a'', emoji = ''x''\<rparr>, \<lparr>userId = ''a'', emoji = ''y''\<rparr>]]"
proof -
  let ?p1 = "SaveReaction ''a'' m0 ''x''" and ?p2 = "SaveReaction ''a'' m0 ''y''"
  let ?mx = "m0\<lparr>reactions := [\<lparr>userId = ''a'', emoji = ''x''\<rparr>]\<rparr>"
  let ?mxy = "m0\<lparr>reactions := [\<lparr>userId = ''a'', emoji = ''x''\<rparr>, \<lparr>userId = ''a'', emoji = ''y''\<rparr>]\<rparr>"
  have b1: "fst (step rt env0 init (Connect ''a'')) = fst (connect init ''a'')"
    by (simp add: step_def)
  have b2: "fst (step rt env0 (fst (connect init ''a'')) (UserJoin ''a'' ''alice'')) = s_a"
    by (simp add: step_def s_a_def connect_def init_def rooms_def object_prototype_names_def)
  have b3: "fst (step rt env0 s_a (SendMessage ''a'' (Some ''hi'') None None)) = s_m0"
    by (simp add: step_def s_a_eq send_message_def save_new_def new_Message_def validate_def
          js_or_def env0_def m0_def s_m0_def Let_def)
  have c1: "fst (step rt env0 s_m0 (AddReaction ''a'' 0 ''x'')) = s_m0\<lparr>pending := [?p1]\<rparr>"
    by (simp add: step_def s_m0_def s_a_eq add_reaction_start_def findById_def m0_def
          new_Message_def env0_def)
  have c2: "fst (step rt env0 (s_m0\<lparr>pending := [?p1]\<rparr>) (AddReaction ''a'' 0 ''y''))
              = s_m0\<lparr>pending := [?p1, ?p2]\<rparr>"
    by (simp add: step_def s_m0_def s_a_eq add_reaction_start_def findById_def m0_def
          new_Message_def env0_def)
  have c3: "fst (step rt env0 (s_m0\<lparr>pending := [?p1, ?p2]\<rparr>) (Resume 0))
              = s_m0\<lparr>pending := [?p2], db := [?mx]\<rparr>"
    by (simp add: step_def resume_def s_m0_def s_a_eq add_reaction_saved_def findById_def
          replace_doc_def m0_def new_Message_def env0_def Let_def)
  have c4: "fst (step rt env0 (s_m0\<lparr>pending := [?p2], db := [?mx]\<rparr>) (Resume 0))
              = s_m0\<lparr>pending := [], db := [?mxy]\<rparr>"
    by (simp add: step_def resume_def s_m0_def s_a_eq add_reaction_saved_def findById_def
          replace_doc_def m0_def new_Message_def env0_def Let_def)
  have "fst (run rt [(env0, Connect ''a''), (env0, UserJoin ''a'' ''alice''),
                      (env0, SendMessage ''a'' (Some ''hi'') None None),
                      (env0, AddReaction ''a'' 0 ''x''), (env0, AddReaction ''a'' 0 ''y''),
                      (env0, Resume 0), (env0, Resume 0)] init)
          = s_m0\<lparr>pending := [], db := [?mxy]\<rparr>"
    by (simp only: run_Cons_state run.simps(1) fst_conv snd_conv b1 b2 b3 c1 c2 c3 c4)
  then show ?thesis by simp
qed

end
